theory Spec2Isabelle
  imports Main "HOL-Library.Sublist" "HOL-Library.Multiset" "HOL-Library.AList"
begin

section \<open>Python strings\<close>

text \<open>
  The tool is \<^verbatim>\<open>build_linux/clang-tidy/filter_clang_tidy.py\<close>; it runs on Linux, so
  \<^verbatim>\<open>os.path\<close> is \<^verbatim>\<open>posixpath\<close> and \<^verbatim>\<open>os.path.sep\<close> is the slash.
  A Python \<^verbatim>\<open>str\<close> is modelled as a \<^typ>\<open>string\<close>.
\<close>

definition os_path_sep :: char where
  "os_path_sep = CHR ''/''"

text \<open>\<^verbatim>\<open>sub in s\<close> on two strings: \<^verbatim>\<open>sub\<close> occurs in \<^verbatim>\<open>s\<close> as a contiguous run.\<close>

fun str_in :: "string \<Rightarrow> string \<Rightarrow> bool" where
  "str_in sub [] = (sub = [])"
| "str_in sub (c # cs) = (prefix sub (c # cs) \<or> str_in sub cs)"

text \<open>
  \<^verbatim>\<open>s.replace(old, new)\<close>: every non-overlapping occurrence of \<^verbatim>\<open>old\<close>, found from
  left to right, is replaced. With an empty \<^verbatim>\<open>old\<close> Python inserts \<^verbatim>\<open>new\<close> before every
  character and at the end.
\<close>

function str_replace_ne :: "string \<Rightarrow> string \<Rightarrow> string \<Rightarrow> string" where
  "str_replace_ne old new [] = []"
| "str_replace_ne old new (c # cs) =
     (if old \<noteq> [] \<and> prefix old (c # cs)
      then new @ str_replace_ne old new (drop (length old) (c # cs))
      else c # str_replace_ne old new cs)"
  by pat_completeness auto
termination
  by (relation "measure (\<lambda>(old, new, s). length s)") auto

declare str_replace_ne.simps [simp del]

definition str_replace :: "string \<Rightarrow> string \<Rightarrow> string \<Rightarrow> string" where
  "str_replace old new s =
     (if old = [] then new @ concat (map (\<lambda>c. c # new) s) else str_replace_ne old new s)"

text \<open>\<^verbatim>\<open>s.lstrip(chars)\<close> and \<^verbatim>\<open>s.rstrip(chars)\<close> for a one-character \<^verbatim>\<open>chars\<close>.\<close>

definition str_lstrip :: "char \<Rightarrow> string \<Rightarrow> string" where
  "str_lstrip ch s = dropWhile (\<lambda>c. c = ch) s"

definition str_rstrip :: "char \<Rightarrow> string \<Rightarrow> string" where
  "str_rstrip ch s = rev (dropWhile (\<lambda>c. c = ch) (rev s))"

text \<open>\<^verbatim>\<open>s.split(sep)\<close> with a one-character separator; the result is never empty.\<close>

fun str_split :: "char \<Rightarrow> string \<Rightarrow> string list" where
  "str_split ch [] = [[]]"
| "str_split ch (c # cs) =
     (if c = ch then [] # str_split ch cs
      else (case str_split ch cs of [] \<Rightarrow> [[c]] | w # ws \<Rightarrow> (c # w) # ws))"

text \<open>\<^verbatim>\<open>sep.join(parts)\<close> with a one-character separator.\<close>

fun str_join :: "char \<Rightarrow> string list \<Rightarrow> string" where
  "str_join ch [] = []"
| "str_join ch [x] = x"
| "str_join ch (x # y # ys) = x @ ch # str_join ch (y # ys)"

section \<open>The functions of posixpath that the tool calls\<close>

datatype error =
    KeyError string
  | TypeError
  | ValueError
  | AttributeError
  | JSONDecodeError
  | SystemExit_code int
  | SystemExit_msg string

definition os_path_isabs :: "string \<Rightarrow> bool" where
  "os_path_isabs s = prefix [os_path_sep] s"

text \<open>\<^verbatim>\<open>os.path.join(a, b)\<close>.\<close>

definition os_path_join :: "string \<Rightarrow> string \<Rightarrow> string" where
  "os_path_join a b =
     (if prefix [os_path_sep] b then b
      else if a = [] \<or> suffix [os_path_sep] a then a @ b
      else a @ os_path_sep # b)"

text \<open>
  \<^verbatim>\<open>os.path.dirname(p)\<close>: the text up to the last separator, without trailing separators
  unless it consists of separators only.
\<close>

definition os_path_dirname :: "string \<Rightarrow> string" where
  "os_path_dirname p =
     (let head = rev (dropWhile (\<lambda>c. c \<noteq> os_path_sep) (rev p))
      in if head \<noteq> [] \<and> head \<noteq> replicate (length head) os_path_sep
         then str_rstrip os_path_sep head else head)"

text \<open>The loop of \<^verbatim>\<open>os.path.normpath\<close> over the components; \<^verbatim>\<open>new_comps\<close> is kept reversed.\<close>

fun normpath_comps :: "bool \<Rightarrow> string list \<Rightarrow> string list \<Rightarrow> string list" where
  "normpath_comps initial_slashes new_comps [] = rev new_comps"
| "normpath_comps initial_slashes new_comps (cmp # comps) =
     (if cmp = [] \<or> cmp = ''.'' then normpath_comps initial_slashes new_comps comps
      else if cmp \<noteq> ''..'' \<or> (\<not> initial_slashes \<and> new_comps = [])
              \<or> (new_comps \<noteq> [] \<and> hd new_comps = ''..'')
      then normpath_comps initial_slashes (cmp # new_comps) comps
      else if new_comps \<noteq> [] then normpath_comps initial_slashes (tl new_comps) comps
      else normpath_comps initial_slashes new_comps comps)"

definition os_path_normpath :: "string \<Rightarrow> string" where
  "os_path_normpath path =
     (if path = [] then ''.''
      else
        let initial_slashes =
              (if prefix [os_path_sep] path
               then (if prefix [os_path_sep, os_path_sep] path
                        \<and> \<not> prefix [os_path_sep, os_path_sep, os_path_sep] path
                     then 2 else 1)
               else (0::nat));
            comps = normpath_comps (initial_slashes \<noteq> 0) [] (str_split os_path_sep path);
            joined = replicate initial_slashes os_path_sep @ str_join os_path_sep comps
        in if joined = [] then ''.'' else joined)"

text \<open>\<^verbatim>\<open>os.path.abspath(path)\<close>, with the process's working directory as a parameter.\<close>

definition os_path_abspath :: "string \<Rightarrow> string \<Rightarrow> string" where
  "os_path_abspath cwd path =
     os_path_normpath (if os_path_isabs path then path else os_path_join cwd path)"

text \<open>The length of the longest common prefix, as \<^verbatim>\<open>len(commonprefix([xs, ys]))\<close>.\<close>

fun commonprefix_len :: "'a list \<Rightarrow> 'a list \<Rightarrow> nat" where
  "commonprefix_len (x # xs) (y # ys) = (if x = y then Suc (commonprefix_len xs ys) else 0)"
| "commonprefix_len _ _ = 0"

text \<open>
  \<^verbatim>\<open>os.path.relpath(path, start)\<close>. It raises \<^verbatim>\<open>ValueError\<close> on an empty \<^verbatim>\<open>path\<close>.
\<close>

definition os_path_relpath :: "string \<Rightarrow> string \<Rightarrow> string \<Rightarrow> error + string" where
  "os_path_relpath cwd path start =
     (if path = [] then Inl ValueError
      else
        let start_list = filter (\<lambda>x. x \<noteq> []) (str_split os_path_sep (os_path_abspath cwd start));
            path_list = filter (\<lambda>x. x \<noteq> []) (str_split os_path_sep (os_path_abspath cwd path));
            i = commonprefix_len start_list path_list;
            rel_list = replicate (length start_list - i) ''..'' @ drop i path_list
        in case rel_list of
             [] \<Rightarrow> Inr ''.''
           | r # rs \<Rightarrow> Inr (foldl os_path_join r rs))"

section \<open>The data of the tool\<close>

text \<open>
  The values \<^verbatim>\<open>json.load\<close> builds. A number is never inspected by the tool and is kept as
  its literal. A JSON object is a Python \<^verbatim>\<open>dict\<close>: an association list in insertion order,
  read with \<^const>\<open>map_of\<close> and written with \<^const>\<open>AList.update\<close>, which overwrites the value of
  a present key in place and appends an absent one.
\<close>

datatype json =
    JNull
  | JBool bool
  | JNum string
  | JStr string
  | JArr "json list"
  | JObj "(string \<times> json) list"

text \<open>
  An entry of the compilation database is a JSON object. The database is taken as an
  array of objects and the configuration as an array of arrays of strings, as the input
  formats say; inside an entry every JSON value is admitted.
\<close>

type_synonym entry = "(string \<times> json) list"

text \<open>\<^verbatim>\<open>command[key]\<close> on a dict.\<close>

definition getitem :: "entry \<Rightarrow> string \<Rightarrow> error + json" where
  "getitem command key' =
     (case map_of command key' of None \<Rightarrow> Inl (KeyError key') | Some v \<Rightarrow> Inr v)"

text \<open>
  \<^verbatim>\<open>s in v\<close> for a string \<^verbatim>\<open>s\<close> and a loaded value \<^verbatim>\<open>v\<close>: substring test on a string,
  membership on a list, key membership on a dict, \<^verbatim>\<open>TypeError\<close> on anything else.
\<close>

fun py_in :: "string \<Rightarrow> json \<Rightarrow> error + bool" where
  "py_in s (JStr t) = Inr (str_in s t)"
| "py_in s (JArr vs) = Inr (JStr s \<in> set vs)"
| "py_in s (JObj kvs) = Inr (s \<in> fst ` set kvs)"
| "py_in s _ = Inl TypeError"

text \<open>
  The module's global variables. \<^verbatim>\<open>read_args\<close> sets the three paths (argument parsing and
  the resolution of symbolic links are not modelled: the paths are taken as resolved), and
  \<^verbatim>\<open>path_relative\<close> is the working directory of the process from then on.
\<close>

record state =
  path_config :: string
  path_build :: string
  path_relative :: string
  commands :: "entry list"
  excludes :: "string list"
  commands_inc :: "entry list"
  commands_exc :: "entry list"

text \<open>
  The three switches of the module. \<^verbatim>\<open>DEBUG\<close> is off, so the prints under it never run
  and the model leaves them out. The loaders below take \<^verbatim>\<open>TERMINATE_OK\<close> as an argument,
  so that both of its values can be studied.
\<close>

definition DEBUG :: bool where
  "DEBUG = False"

definition TERMINATE_OK :: bool where
  "TERMINATE_OK = False"

definition REPLACE_WITH_SYSTEM_HEADERS :: bool where
  "REPLACE_WITH_SYSTEM_HEADERS = True"

section \<open>read_config: the exclusion strings\<close>

text \<open>
  The loop of \<^verbatim>\<open>read_config\<close> over \<^verbatim>\<open>excludes_raw\<close>, a list of lists of directory names:
  each becomes one separator followed by the names joined with the separator, appended to
  \<^verbatim>\<open>excludes\<close>.
\<close>

definition normalize_exclude :: "string list \<Rightarrow> string" where
  "normalize_exclude exclude_raw = os_path_sep # str_join os_path_sep exclude_raw"

definition read_config_excludes :: "string list list \<Rightarrow> state \<Rightarrow> state" where
  "read_config_excludes excludes_raw st =
     st\<lparr>excludes := excludes st @ map normalize_exclude excludes_raw\<rparr>"

section \<open>filter_sources\<close>

text \<open>
  \<^verbatim>\<open>path_str\<close> of one entry: \<^verbatim>\<open>command['file']\<close> raises \<^verbatim>\<open>KeyError\<close> when the key is
  missing, \<^verbatim>\<open>os.path.dirname\<close> raises \<^verbatim>\<open>TypeError\<close> on a value that is not a string, and
  \<^verbatim>\<open>os.path.relpath\<close> raises \<^verbatim>\<open>ValueError\<close> when the directory part is empty.
\<close>

definition path_str :: "string \<Rightarrow> entry \<Rightarrow> error + string" where
  "path_str path_rel command =
     (case getitem command ''file'' of
        Inl e \<Rightarrow> Inl e
      | Inr (JStr f) \<Rightarrow>
          (case os_path_relpath path_rel (os_path_dirname f) path_rel of
             Inl e \<Rightarrow> Inl e
           | Inr rel \<Rightarrow> Inr (os_path_sep # rel))
      | Inr _ \<Rightarrow> Inl TypeError)"

text \<open>The inner loop with its \<^verbatim>\<open>break\<close>: the value of \<^verbatim>\<open>include_folder\<close> after it.\<close>

fun include_folder :: "string list \<Rightarrow> string \<Rightarrow> bool" where
  "include_folder [] p = True"
| "include_folder (exclude # rest) p =
     (if str_in exclude p then False else include_folder rest p)"

text \<open>The outer loop over \<^verbatim>\<open>commands\<close>; an exception ends the run.\<close>

fun filter_sources_loop :: "entry list \<Rightarrow> state \<Rightarrow> error + state" where
  "filter_sources_loop [] st = Inr st"
| "filter_sources_loop (command # rest) st =
     (case path_str (path_relative st) command of
        Inl e \<Rightarrow> Inl e
      | Inr p \<Rightarrow>
          (if include_folder (excludes st) p
           then filter_sources_loop rest (st\<lparr>commands_inc := commands_inc st @ [command]\<rparr>)
           else filter_sources_loop rest (st\<lparr>commands_exc := commands_exc st @ [command]\<rparr>)))"

definition filter_sources :: "state \<Rightarrow> error + state" where
  "filter_sources st = filter_sources_loop (commands st) st"

section \<open>filter_headers\<close>

text \<open>
  \<^verbatim>\<open>v.replace(old, new)\<close> on a loaded value: only a string has the method; a list or a dict
  raises \<^verbatim>\<open>AttributeError\<close>.
\<close>

fun py_replace :: "json \<Rightarrow> string \<Rightarrow> string \<Rightarrow> error + json" where
  "py_replace (JStr s) old new = Inr (JStr (str_replace old new s))"
| "py_replace _ old new = Inl AttributeError"

text \<open>
  The inner loop over the stripped \<^verbatim>\<open>excludes\<close> for one entry of \<^verbatim>\<open>commands_inc\<close>. The
  entry is a dict mutated in place; the model returns the new dict.
\<close>

fun filter_headers_excludes :: "string \<Rightarrow> string list \<Rightarrow> entry \<Rightarrow> error + entry" where
  "filter_headers_excludes path_rel [] command = Inr command"
| "filter_headers_excludes path_rel (exclude # rest) command =
     (let exclude_path = os_path_join path_rel exclude;
          header_include = ''-I'' @ exclude_path;
          header_system = ''-isystem '' @ exclude_path
      in case getitem command ''command'' of
           Inl e \<Rightarrow> Inl e
         | Inr v \<Rightarrow>
             (case py_in header_include v of
                Inl e \<Rightarrow> Inl e
              | Inr found \<Rightarrow>
                  (if found
                   then (case py_replace v header_include header_system of
                           Inl e \<Rightarrow> Inl e
                         | Inr v' \<Rightarrow>
                             filter_headers_excludes path_rel rest
                               (AList.update ''command'' v' command))
                   else filter_headers_excludes path_rel rest command)))"

text \<open>
  The outer loop over \<^verbatim>\<open>commands_inc\<close>. \<^verbatim>\<open>json.load\<close> builds a dict of its own for every
  element of the array, so the mutation of one entry is seen at its own position only.
\<close>

fun filter_headers_commands :: "string \<Rightarrow> string list \<Rightarrow> entry list \<Rightarrow> error + entry list" where
  "filter_headers_commands path_rel excl [] = Inr []"
| "filter_headers_commands path_rel excl (command # rest) =
     (case filter_headers_excludes path_rel excl command of
        Inl e \<Rightarrow> Inl e
      | Inr command' \<Rightarrow>
          (case filter_headers_commands path_rel excl rest of
             Inl e \<Rightarrow> Inl e
           | Inr rest' \<Rightarrow> Inr (command' # rest')))"

text \<open>
  \<^verbatim>\<open>filter_headers\<close> strips the leading separators of every exclusion string in place and
  rewrites the entries of \<^verbatim>\<open>commands_inc\<close>. The list \<^verbatim>\<open>commands\<close> shares its dicts with
  \<^verbatim>\<open>commands_inc\<close> in Python; it is not read after \<^verbatim>\<open>filter_sources\<close> and the model leaves
  it as it is.
\<close>

definition filter_headers :: "state \<Rightarrow> error + state" where
  "filter_headers st =
     (if REPLACE_WITH_SYSTEM_HEADERS
      then
        (let excl = map (str_lstrip os_path_sep) (excludes st)
         in case filter_headers_commands (path_relative st) excl (commands_inc st) of
              Inl e \<Rightarrow> Inl e
            | Inr inc \<Rightarrow> Inr (st\<lparr>excludes := excl, commands_inc := inc\<rparr>))
      else Inr st)"

section \<open>The loaders, the writer and main\<close>

text \<open>
  The world outside the process: the files by path, and what was printed. A file holds
  a text of type \<^typ>\<open>'f\<close>; \<^verbatim>\<open>json.load\<close> and \<^verbatim>\<open>json.dump\<close> are parameters of the model
  (\<open>None\<close> is a load that raises), since parsing is the library's work, not the tool's.
\<close>

record 'f world =
  files :: "string \<rightharpoonup> 'f"
  stdout :: "string list"

definition os_path_exists :: "'f world \<Rightarrow> string \<Rightarrow> bool" where
  "os_path_exists w p = (p \<in> dom (files w))"

definition read_config ::
  "bool \<Rightarrow> ('f \<Rightarrow> string list list option) \<Rightarrow> 'f world \<Rightarrow> state \<Rightarrow> 'f world \<times> (error + state)" where
  "read_config terminate_ok json_load w st =
     (if \<not> os_path_exists w (path_config st)
      then
        (if terminate_ok
         then (w\<lparr>stdout := stdout w @
                 [''ERROR - Directory exclusion configuration is missing, skipping further processing'']\<rparr>,
               Inl (SystemExit_code 0))
         else (w, Inl (SystemExit_msg
                 (''** FATAL - file to list excluded directories is missing:'' @ [CHR 0x0A]
                    @ path_config st))))
      else
        (case Option.bind (files w (path_config st)) json_load of
           None \<Rightarrow> (w, Inl JSONDecodeError)
         | Some excludes_raw \<Rightarrow> (w, Inr (read_config_excludes excludes_raw st))))"

definition read_commands ::
  "bool \<Rightarrow> ('f \<Rightarrow> entry list option) \<Rightarrow> 'f world \<Rightarrow> state \<Rightarrow> 'f world \<times> (error + state)" where
  "read_commands terminate_ok json_load w st =
     (let path_database = os_path_join (path_build st) ''compile_commands.json''
      in if \<not> os_path_exists w path_database
         then
           (if terminate_ok
            then (w\<lparr>stdout := stdout w @
                    [''ERROR - CMake-generated file '' @ [CHR 0x22] @ ''compile_commands.json'' @ [CHR 0x22]
                       @ '' is missing, skipping further processing'']\<rparr>,
                  Inl (SystemExit_code 0))
            else (w, Inl (SystemExit_msg
                    (''** FATAL - file to list compile commands is missing:'' @ [CHR 0x0A]
                       @ path_database))))
         else
           (case Option.bind (files w path_database) json_load of
              None \<Rightarrow> (w, Inl JSONDecodeError)
            | Some cs \<Rightarrow> (w, Inr (st\<lparr>commands := cs\<rparr>))))"

definition save_commands :: "(entry list \<Rightarrow> 'f) \<Rightarrow> 'f world \<Rightarrow> state \<Rightarrow> 'f world" where
  "save_commands json_dump w st =
     (let PATH_COMPILE_COMMANDS_INC = os_path_join (path_build st) ''compile_commands_inc.json'';
          PATH_COMPILE_COMMANDS_EXC = os_path_join (path_build st) ''compile_commands_exc.json'';
          w1 = w\<lparr>files := (files w)(PATH_COMPILE_COMMANDS_INC \<mapsto> json_dump (commands_inc st))\<rparr>
      in w1\<lparr>files := (files w1)(PATH_COMPILE_COMMANDS_EXC \<mapsto> json_dump (commands_exc st))\<rparr>)"

text \<open>
  \<^verbatim>\<open>main\<close> after \<^verbatim>\<open>read_args\<close>: the globals hold the three resolved paths and empty lists.
  The result is the world the process leaves and the exception that ended it, if any.
\<close>

definition main_with ::
  "bool \<Rightarrow> ('f \<Rightarrow> string list list option) \<Rightarrow> ('f \<Rightarrow> entry list option) \<Rightarrow> (entry list \<Rightarrow> 'f)
     \<Rightarrow> string \<Rightarrow> string \<Rightarrow> string \<Rightarrow> 'f world \<Rightarrow> 'f world \<times> error option" where
  "main_with terminate_ok load_config load_commands json_dump pc pb pr w =
     (let st0 = \<lparr>path_config = pc, path_build = pb, path_relative = pr, commands = [],
                 excludes = [], commands_inc = [], commands_exc = []\<rparr>
      in case read_config terminate_ok load_config w st0 of
           (w1, Inl e) \<Rightarrow> (w1, Some e)
         | (w1, Inr st1) \<Rightarrow>
             (case read_commands terminate_ok load_commands w1 st1 of
                (w2, Inl e) \<Rightarrow> (w2, Some e)
              | (w2, Inr st2) \<Rightarrow>
                  (case filter_sources st2 of
                     Inl e \<Rightarrow> (w2, Some e)
                   | Inr st3 \<Rightarrow>
                       (case filter_headers st3 of
                          Inl e \<Rightarrow> (w2, Some e)
                        | Inr st4 \<Rightarrow> (save_commands json_dump w2 st4, None)))))"

definition main ::
  "('f \<Rightarrow> string list list option) \<Rightarrow> ('f \<Rightarrow> entry list option) \<Rightarrow> (entry list \<Rightarrow> 'f)
     \<Rightarrow> string \<Rightarrow> string \<Rightarrow> string \<Rightarrow> 'f world \<Rightarrow> 'f world \<times> error option" where
  "main = main_with TERMINATE_OK"

text \<open>
  The exit status of the process: 0 on a normal end, the code of \<^verbatim>\<open>sys.exit(code)\<close>, and 1
  for \<^verbatim>\<open>SystemExit\<close> raised with a message and for every unhandled exception.
\<close>

fun exit_status :: "error option \<Rightarrow> int" where
  "exit_status None = 0"
| "exit_status (Some (SystemExit_code n)) = n"
| "exit_status (Some _) = 1"

section \<open>A partitioner that tests every exclusion string\<close>

text \<open>
  The variant the specification compares with: the inner loop without \<^verbatim>\<open>break\<close>, which
  tests every exclusion string and clears the flag at each match.
\<close>

definition include_folder_all :: "string list \<Rightarrow> string \<Rightarrow> bool" where
  "include_folder_all excl p =
     foldl (\<lambda>flag exclude. if str_in exclude p then False else flag) True excl"

fun filter_sources_all_loop :: "entry list \<Rightarrow> state \<Rightarrow> error + state" where
  "filter_sources_all_loop [] st = Inr st"
| "filter_sources_all_loop (command # rest) st =
     (case path_str (path_relative st) command of
        Inl e \<Rightarrow> Inl e
      | Inr p \<Rightarrow>
          (if include_folder_all (excludes st) p
           then filter_sources_all_loop rest (st\<lparr>commands_inc := commands_inc st @ [command]\<rparr>)
           else filter_sources_all_loop rest (st\<lparr>commands_exc := commands_exc st @ [command]\<rparr>)))"

definition filter_sources_all :: "state \<Rightarrow> error + state" where
  "filter_sources_all st = filter_sources_all_loop (commands st) st"

section \<open>Notions used in the statements\<close>

text \<open>
  An entry on which \<^const>\<open>path_str\<close> raises nothing: its \<^verbatim>\<open>file\<close> is a string with a
  directory part, as every absolute path has.
\<close>

definition well_formed_file :: "entry \<Rightarrow> bool" where
  "well_formed_file command =
     (case map_of command ''file'' of
        Some (JStr f) \<Rightarrow> os_path_dirname f \<noteq> []
      | _ \<Rightarrow> False)"

text \<open>The classification of one entry, as a total predicate.\<close>

definition is_included :: "string \<Rightarrow> string list \<Rightarrow> entry \<Rightarrow> bool" where
  "is_included pr excl command =
     (case path_str pr command of
        Inl e \<Rightarrow> False
      | Inr p \<Rightarrow> include_folder excl p)"

text \<open>
  What the inner loop of \<^verbatim>\<open>filter_headers\<close> does to a command that is a string: one step
  for one exclusion string, and the steps in sequence.
\<close>

definition rewrite_step :: "string \<Rightarrow> string \<Rightarrow> string \<Rightarrow> string" where
  "rewrite_step path_rel exclude c =
     (let exclude_path = os_path_join path_rel exclude;
          header_include = ''-I'' @ exclude_path;
          header_system = ''-isystem '' @ exclude_path
      in if str_in header_include c then str_replace header_include header_system c else c)"

fun rewrite_command :: "string \<Rightarrow> string list \<Rightarrow> string \<Rightarrow> string" where
  "rewrite_command path_rel [] c = c"
| "rewrite_command path_rel (exclude # rest) c =
     rewrite_command path_rel rest (rewrite_step path_rel exclude c)"

text \<open>
  A path in which every \<^verbatim>\<open>-\<close> is followed by a character other than \<^verbatim>\<open>I\<close> and \<^verbatim>\<open>i\<close>:
  it contains neither \<^verbatim>\<open>-I\<close> nor \<^verbatim>\<open>-i\<close> and does not end with \<^verbatim>\<open>-\<close>, so no include flag
  can start inside it or run from its end into the text after it.
\<close>

fun dash_safe :: "string \<Rightarrow> bool" where
  "dash_safe [] = True"
| "dash_safe [c] = (c \<noteq> CHR ''-'')"
| "dash_safe (c # d # cs) =
     ((c = CHR ''-'' \<longrightarrow> d \<noteq> CHR ''I'' \<and> d \<noteq> CHR ''i'') \<and> dash_safe (d # cs))"

text \<open>The exclusion path of an exclusion string as \<^verbatim>\<open>read_config\<close> left it.\<close>

definition exclude_path_of :: "string \<Rightarrow> string \<Rightarrow> string" where
  "exclude_path_of path_rel exclude = os_path_join path_rel (str_lstrip os_path_sep exclude)"

section \<open>Example runs\<close>

text \<open>
  The scenario of the specification: the tool runs in \<^verbatim>\<open>/proj\<close>, the configuration is
  \<^verbatim>\<open>[["vendor"]]\<close>, and the database has one source under \<^verbatim>\<open>/proj/src\<close> and one under
  \<^verbatim>\<open>/proj/vendor\<close>.
\<close>

definition main_cpp :: entry where
  "main_cpp = [(''directory'', JStr ''/proj/build''),
               (''command'', JStr ''g++ -I/proj/vendor -c /proj/src/main.cpp''),
               (''file'', JStr ''/proj/src/main.cpp'')]"

definition lib_cpp :: entry where
  "lib_cpp = [(''directory'', JStr ''/proj/build''),
              (''command'', JStr ''g++ -c /proj/vendor/lib.cpp''),
              (''file'', JStr ''/proj/vendor/lib.cpp'')]"

definition state0 :: "string \<Rightarrow> entry list \<Rightarrow> state" where
  "state0 pr cs = \<lparr>path_config = os_path_join pr ''excludes_clang_tidy.json'',
                   path_build = os_path_join pr ''_build'', path_relative = pr,
                   commands = cs, excludes = [], commands_inc = [], commands_exc = []\<rparr>"

definition scenario_state :: state where
  "scenario_state = read_config_excludes [[''vendor'']] (state0 ''/proj'' [main_cpp, lib_cpp])"

text \<open>The configuration \<^verbatim>\<open>[["lib"]]\<close> and a source in a directory named \<^verbatim>\<open>liblib\<close>.\<close>

definition liblib_cpp :: entry where
  "liblib_cpp = [(''directory'', JStr ''/proj/build''),
                 (''command'', JStr ''g++ -c /proj/liblib/a.cpp''),
                 (''file'', JStr ''/proj/liblib/a.cpp'')]"

definition liblib_state :: state where
  "liblib_state = read_config_excludes [[''lib'']] (state0 ''/proj'' [liblib_cpp])"

text \<open>The scenario after \<^verbatim>\<open>filter_sources\<close>.\<close>

definition scenario_partitioned :: state where
  "scenario_partitioned = scenario_state\<lparr>commands_inc := [main_cpp], commands_exc := [lib_cpp]\<rparr>"

text \<open>
  The same configuration with a database in which no source lies under \<^verbatim>\<open>vendor\<close>: once
  with the entry whose command names \<^verbatim>\<open>/proj/vendor\<close> as an include directory, once with
  an entry whose command has no such flag.
\<close>

definition util_cpp :: entry where
  "util_cpp = [(''directory'', JStr ''/proj/build''),
               (''command'', JStr ''g++ -I/proj/src -c /proj/src/util.cpp''),
               (''file'', JStr ''/proj/src/util.cpp'')]"

definition no_match_state :: state where
  "no_match_state = read_config_excludes [[''vendor'']] (state0 ''/proj'' [main_cpp])"

definition plain_state :: state where
  "plain_state = read_config_excludes [[''vendor'']] (state0 ''/proj'' [util_cpp])"

text \<open>
  Runs in \<^verbatim>\<open>/w\<close> with exclusion paths that contain \<^verbatim>\<open>-I\<close> or end in \<^verbatim>\<open>-i\<close>: the
  configuration \<^verbatim>\<open>[["a"], ["x-I", "w", "a"]]\<close> with an included entry whose command has
  the flag of the second path, and the configuration \<^verbatim>\<open>[["a-i"]]\<close> with a command that
  names a directory below \<^verbatim>\<open>/w/a-I\<close>.
\<close>

definition overlap_cpp :: entry where
  "overlap_cpp = [(''directory'', JStr ''/w/build''),
                  (''command'', JStr ''g++ -I/w/x-I/w/a -c /w/src/m.cpp''),
                  (''file'', JStr ''/w/src/m.cpp'')]"

definition overlap_state :: state where
  "overlap_state =
     (read_config_excludes [[''a''], [''x-I'', ''w'', ''a'']] (state0 ''/w'' [overlap_cpp]))
       \<lparr>commands_inc := [overlap_cpp]\<rparr>"

definition twice_cpp :: entry where
  "twice_cpp = [(''directory'', JStr ''/w/build''),
                (''command'', JStr ''g++ -I/w/a-I/w/a-i -c /w/src/m.cpp''),
                (''file'', JStr ''/w/src/m.cpp'')]"

text \<open>A world without files, and loaders that are never reached in it.\<close>

definition empty_world :: "unit world" where
  "empty_world = \<lparr>files = Map.empty, stdout = []\<rparr>"

section \<open>The partition\<close>

lemma os_path_relpath_Inr:
  "path \<noteq> [] \<Longrightarrow> \<exists>rel. os_path_relpath cwd path start = Inr rel"
  by (simp add: os_path_relpath_def Let_def split: list.split)

lemma path_str_well_formed:
  "well_formed_file command \<longleftrightarrow> (\<exists>p. path_str pr command = Inr p)"
proof (cases "map_of command ''file''")
  case None
  then show ?thesis by (simp add: well_formed_file_def path_str_def getitem_def)
next
  case (Some v)
  show ?thesis
  proof (cases v)
    case (JStr f)
    show ?thesis
    proof (cases "os_path_dirname f = []")
      case True
      with Some JStr show ?thesis
        by (simp add: well_formed_file_def path_str_def getitem_def os_path_relpath_def)
    next
      case False
      from os_path_relpath_Inr [OF False] obtain rel
        where "os_path_relpath pr (os_path_dirname f) pr = Inr rel" by blast
      with Some JStr False show ?thesis
        by (simp add: well_formed_file_def path_str_def getitem_def)
    qed
  qed (use Some in \<open>simp_all add: well_formed_file_def path_str_def getitem_def\<close>)
qed

text \<open>On well-formed entries the loop is a stable filter into the two lists.\<close>

lemma filter_sources_loop_filter:
  "\<forall>c \<in> set cs. well_formed_file c \<Longrightarrow>
   filter_sources_loop cs st =
     Inr (st\<lparr>commands_inc :=
               commands_inc st @ filter (is_included (path_relative st) (excludes st)) cs,
             commands_exc :=
               commands_exc st
                 @ filter (\<lambda>c. \<not> is_included (path_relative st) (excludes st) c) cs\<rparr>)"
proof (induction cs arbitrary: st)
  case Nil
  show ?case by simp
next
  case (Cons c cs)
  from Cons.prems have "well_formed_file c" by simp
  then obtain p where p: "path_str (path_relative st) c = Inr p"
    using path_str_well_formed by blast
  from Cons.prems have rest: "\<forall>c \<in> set cs. well_formed_file c" by simp
  show ?case
  proof (cases "include_folder (excludes st) p")
    case True
    then show ?thesis
      using p Cons.IH [OF rest, of "st\<lparr>commands_inc := commands_inc st @ [c]\<rparr>"]
      by (simp add: is_included_def)
  next
    case False
    then show ?thesis
      using p Cons.IH [OF rest, of "st\<lparr>commands_exc := commands_exc st @ [c]\<rparr>"]
      by (simp add: is_included_def)
  qed
qed

text \<open>An entry that is not well formed ends the run with an exception.\<close>

lemma filter_sources_loop_error:
  "\<not> (\<forall>c \<in> set cs. well_formed_file c) \<Longrightarrow> \<exists>e. filter_sources_loop cs st = Inl e"
proof (induction cs arbitrary: st)
  case Nil
  then show ?case by simp
next
  case (Cons c cs)
  show ?case
  proof (cases "path_str (path_relative st) c")
    case (Inl e)
    then show ?thesis by simp
  next
    case (Inr p)
    then have "well_formed_file c" using path_str_well_formed by blast
    with Cons.prems have "\<not> (\<forall>c \<in> set cs. well_formed_file c)" by simp
    from Cons.IH [OF this] Inr show ?thesis by simp
  qed
qed

lemma str_in_sublist: "str_in t s = sublist t s"
  by (induction s) (simp_all add: sublist_Cons_right)

lemma include_folder_iff:
  "include_folder excl p \<longleftrightarrow> (\<forall>x \<in> set excl. \<not> str_in x p)"
  by (induction excl) auto

text \<open>
  What the code decides: an entry is excluded exactly when some exclusion string occurs
  in its \<^verbatim>\<open>path_str\<close> as a plain substring.
\<close>

lemma excluded_iff_substring:
  assumes "commands_inc st = []" and "commands_exc st = []"
    and "\<forall>c \<in> set (commands st). well_formed_file c"
    and "filter_sources st = Inr st'"
  shows "c \<in> set (commands_exc st') \<longleftrightarrow>
           c \<in> set (commands st)
           \<and> (\<exists>p x. path_str (path_relative st) c = Inr p \<and> x \<in> set (excludes st) \<and> sublist x p)"
proof -
  have "commands_exc st' =
          filter (\<lambda>c. \<not> is_included (path_relative st) (excludes st) c) (commands st)"
    using filter_sources_loop_filter [OF assms(3), of st] assms(1,2,4)
    by (auto simp add: filter_sources_def)
  moreover have "\<not> is_included (path_relative st) (excludes st) c \<longleftrightarrow>
      (\<exists>p x. path_str (path_relative st) c = Inr p \<and> x \<in> set (excludes st) \<and> sublist x p)"
    if "c \<in> set (commands st)"
  proof -
    from that assms(3) obtain p where "path_str (path_relative st) c = Inr p"
      using path_str_well_formed by blast
    then show ?thesis
      by (auto simp add: is_included_def include_folder_iff str_in_sublist)
  qed
  ultimately show ?thesis by auto
qed

text \<open>
  Claim C1. An entry is excluded iff its \<^verbatim>\<open>path_str\<close> contains an exclusion fragment as a
  path-separator-delimited substring, never by a partial-segment match; the fragment built
  from \<^verbatim>\<open>["lib"]\<close> must not match a directory named \<^verbatim>\<open>liblib\<close>. The code tests plain
  substring containment, and the leading separator anchors only the start of the
  fragment: with the configuration \<^verbatim>\<open>[["lib"]]\<close> the exclusion string is \<^verbatim>\<open>/lib\<close>, the
  \<^verbatim>\<open>path_str\<close> of \<^verbatim>\<open>/proj/liblib/a.cpp\<close> is \<^verbatim>\<open>/liblib\<close>, and the entry lands in the excluded
  list.
\<close>

theorem liblib_is_excluded:
  "excludes liblib_state = [''/lib'']
   \<and> path_str (path_relative liblib_state) liblib_cpp = Inr ''/liblib''
   \<and> filter_sources liblib_state = Inr (liblib_state\<lparr>commands_exc := [liblib_cpp]\<rparr>)"
  by code_simp

text \<open>
  Claim C2. For every compilation database of N entries (each with a \<^verbatim>\<open>file\<close> that has a
  directory part), the partitioner returns two lists whose lengths sum to N, that are
  disjoint, whose union is the input set, and that together hold every input entry as
  often as the input does.
\<close>

theorem partition_complete:
  assumes "commands_inc st = []" and "commands_exc st = []"
    and "\<forall>c \<in> set (commands st). well_formed_file c"
  shows "\<exists>st'. filter_sources st = Inr st'
           \<and> length (commands_inc st') + length (commands_exc st') = length (commands st)
           \<and> set (commands_inc st') \<inter> set (commands_exc st') = {}
           \<and> set (commands_inc st') \<union> set (commands_exc st') = set (commands st)
           \<and> mset (commands_inc st') + mset (commands_exc st') = mset (commands st)"
proof -
  let ?inc = "filter (is_included (path_relative st) (excludes st)) (commands st)"
  let ?exc = "filter (\<lambda>c. \<not> is_included (path_relative st) (excludes st) c) (commands st)"
  have run: "filter_sources st = Inr (st\<lparr>commands_inc := ?inc, commands_exc := ?exc\<rparr>)"
    using filter_sources_loop_filter [OF assms(3), of st] assms(1,2)
    by (simp add: filter_sources_def)
  have len: "length ?inc + length ?exc = length (commands st)"
    by (rule sum_length_filter_compl)
  have disj: "set ?inc \<inter> set ?exc = {}" by auto
  have un: "set ?inc \<union> set ?exc = set (commands st)" by auto
  have ms: "mset ?inc + mset ?exc = mset (commands st)" by simp
  show ?thesis using run len disj un ms by simp
qed

theorem partition_complete_witness:
  "commands_inc scenario_state = [] \<and> commands_exc scenario_state = []
   \<and> list_all well_formed_file (commands scenario_state)
   \<and> (\<exists>st'. filter_sources scenario_state = Inr st'
         \<and> length (commands_inc st') + length (commands_exc st') = length (commands scenario_state)
         \<and> set (commands_inc st') \<inter> set (commands_exc st') = {}
         \<and> set (commands_inc st') \<union> set (commands_exc st') = set (commands scenario_state)
         \<and> mset (commands_inc st') + mset (commands_exc st') = mset (commands scenario_state))"
proof -
  have h1: "commands_inc scenario_state = []" by code_simp
  have h2: "commands_exc scenario_state = []" by code_simp
  have h3: "\<forall>c \<in> set (commands scenario_state). well_formed_file c" by code_simp
  from partition_complete [OF h1 h2 h3] h1 h2 h3 show ?thesis
    unfolding list_all_iff by blast
qed

text \<open>
  Claim C3. The partition is stable: the included list and the excluded list are
  subsequences of the input, each listing its entries in the order of the input.
\<close>

theorem partition_stable:
  assumes "commands_inc st = []" and "commands_exc st = []"
    and "\<forall>c \<in> set (commands st). well_formed_file c"
  shows "\<exists>st'. filter_sources st = Inr st'
           \<and> subseq (commands_inc st') (commands st)
           \<and> subseq (commands_exc st') (commands st)
           \<and> commands_inc st' = filter (\<lambda>c. c \<in> set (commands_inc st')) (commands st)
           \<and> commands_exc st' = filter (\<lambda>c. c \<in> set (commands_exc st')) (commands st)"
proof -
  let ?inc = "filter (is_included (path_relative st) (excludes st)) (commands st)"
  let ?exc = "filter (\<lambda>c. \<not> is_included (path_relative st) (excludes st) c) (commands st)"
  have run: "filter_sources st = Inr (st\<lparr>commands_inc := ?inc, commands_exc := ?exc\<rparr>)"
    using filter_sources_loop_filter [OF assms(3), of st] assms(1,2)
    by (simp add: filter_sources_def)
  have i: "?inc = filter (\<lambda>c. c \<in> set ?inc) (commands st)"
    by (rule filter_cong) auto
  have e: "?exc = filter (\<lambda>c. c \<in> set ?exc) (commands st)"
    by (rule filter_cong) auto
  show ?thesis using run i e by simp
qed

theorem partition_stable_witness:
  "commands_inc scenario_state = [] \<and> commands_exc scenario_state = []
   \<and> list_all well_formed_file (commands scenario_state)
   \<and> (\<exists>st'. filter_sources scenario_state = Inr st'
         \<and> subseq (commands_inc st') (commands scenario_state)
         \<and> subseq (commands_exc st') (commands scenario_state)
         \<and> commands_inc st' = filter (\<lambda>c. c \<in> set (commands_inc st')) (commands scenario_state)
         \<and> commands_exc st' = filter (\<lambda>c. c \<in> set (commands_exc st')) (commands scenario_state))"
proof -
  have h1: "commands_inc scenario_state = []" by code_simp
  have h2: "commands_exc scenario_state = []" by code_simp
  have h3: "\<forall>c \<in> set (commands scenario_state). well_formed_file c" by code_simp
  from partition_stable [OF h1 h2 h3] h1 h2 h3 show ?thesis
    unfolding list_all_iff by blast
qed

lemma include_folder_all_aux:
  "foldl (\<lambda>flag exclude. if str_in exclude p then False else flag) b excl
     = (b \<and> (\<forall>x \<in> set excl. \<not> str_in x p))"
  by (induction excl arbitrary: b) auto

lemma include_folder_all_eq: "include_folder_all excl p = include_folder excl p"
  by (simp add: include_folder_all_def include_folder_all_aux include_folder_iff)

lemma filter_sources_all_loop_eq: "filter_sources_all_loop cs st = filter_sources_loop cs st"
  by (induction cs arbitrary: st) (simp_all add: include_folder_all_eq split: sum.split)

text \<open>
  Claim C9. The partitioner that stops at the first matching exclusion string gives the
  same result, exceptions included, as the variant that tests every exclusion string.
\<close>

theorem short_circuit_equivalent: "filter_sources_all st = filter_sources st"
  by (simp add: filter_sources_all_def filter_sources_def filter_sources_all_loop_eq)

theorem short_circuit_equivalent_witness:
  "filter_sources_all scenario_state = filter_sources scenario_state
   \<and> map_sum id commands_exc (filter_sources_all scenario_state) = Inr [lib_cpp]"
proof -
  have "map_sum id commands_exc (filter_sources scenario_state) = Inr [lib_cpp]" by code_simp
  with short_circuit_equivalent [of scenario_state] show ?thesis by simp
qed

section \<open>Substitution in command strings\<close>

lemma str_in_append_right: "str_in t r \<Longrightarrow> str_in t (u @ r)"
  by (induction u) simp_all

lemma str_in_prefix: "prefix t s \<Longrightarrow> str_in t s"
  by (cases s) simp_all

lemma dash_safe_tl: "dash_safe (a # w) \<Longrightarrow> dash_safe w"
  by (cases w) simp_all

lemma dash_safe_suffix: "dash_safe (u @ w) \<Longrightarrow> dash_safe w"
  by (induction u) (auto dest: dash_safe_tl)

lemma dash_safe_dash: "dash_safe (CHR ''-'' # w) \<Longrightarrow> \<exists>d w'. w = d # w' \<and> d \<noteq> CHR ''I'' \<and> d \<noteq> CHR ''i''"
  by (cases w) simp_all

text \<open>
  A text that starts like an include flag cannot start inside a dash-safe path.
\<close>

lemma str_in_skip_safe:
  assumes "dash_safe p" and "d = CHR ''I'' \<or> d = CHR ''i''"
  shows "str_in (CHR ''-'' # d # t) (p @ r) = str_in (CHR ''-'' # d # t) r"
  using assms(1)
proof (induction p)
  case Nil
  show ?case by simp
next
  case (Cons a p)
  have "\<not> prefix (CHR ''-'' # d # t) (a # p @ r)"
  proof
    assume "prefix (CHR ''-'' # d # t) (a # p @ r)"
    then have a: "a = CHR ''-''" and pre: "prefix (d # t) (p @ r)" by simp_all
    from Cons.prems a obtain e p' where "p = e # p'" "e \<noteq> CHR ''I''" "e \<noteq> CHR ''i''"
      using dash_safe_dash by blast
    with pre assms(2) show False by simp
  qed
  moreover have "dash_safe p" using Cons.prems by (rule dash_safe_tl)
  ultimately show ?case using Cons.IH by auto
qed

text \<open>
  The replacement of a plain-include flag leaves every dash-safe prefix as it is.
\<close>

lemma prefix_replace_safe:
  assumes "dash_safe w"
  shows "prefix w (str_replace_ne (CHR ''-'' # CHR ''I'' # p) (CHR ''-'' # CHR ''i'' # n) s) = prefix w s"
  using assms
proof (induction s arbitrary: w rule: length_induct)
  case (1 s)
  let ?old = "CHR ''-'' # CHR ''I'' # p" and ?new = "CHR ''-'' # CHR ''i'' # n"
  show ?case
  proof (cases s)
    case Nil
    then show ?thesis by (simp add: str_replace_ne.simps)
  next
    case (Cons c cs)
    show ?thesis
    proof (cases w)
      case Nil
      then show ?thesis by simp
    next
      case w: (Cons a w')
      show ?thesis
      proof (cases "prefix ?old (c # cs)")
        case True
        then obtain cs' where cs: "c = CHR ''-''" "cs = CHR ''I'' # cs'"
          by (cases cs) auto
        have "a = CHR ''-'' \<Longrightarrow> \<exists>d w''. w' = d # w'' \<and> d \<noteq> CHR ''I'' \<and> d \<noteq> CHR ''i''"
          using "1.prems" w dash_safe_dash by blast
        then show ?thesis using True Cons w cs
          by (auto simp add: str_replace_ne.simps)
      next
        case False
        have "length cs < length s" using Cons by simp
        moreover have "dash_safe w'" using "1.prems" w dash_safe_tl by blast
        ultimately have "prefix w' (str_replace_ne ?old ?new cs) = prefix w' cs"
          using "1.IH" by blast
        then show ?thesis using False Cons w by (auto simp add: str_replace_ne.simps)
      qed
    qed
  qed
qed

lemma replace_hit:
  "old \<noteq> [] \<Longrightarrow> str_replace_ne old new (old @ s') = new @ str_replace_ne old new s'"
  by (cases old) (simp_all add: str_replace_ne.simps)

lemma replace_miss:
  "\<not> prefix old (c # cs) \<Longrightarrow> str_replace_ne old new (c # cs) = c # str_replace_ne old new cs"
  by (simp add: str_replace_ne.simps)

text \<open>
  The replacement creates no plain-include flag of a dash-safe path.
\<close>

lemma replace_no_new_flag:
  assumes "dash_safe p" and "dash_safe q"
  shows "str_in (''-I'' @ q) (str_replace_ne (''-I'' @ p) (''-isystem '' @ p) s)
           \<Longrightarrow> str_in (''-I'' @ q) s"
proof (induction s rule: length_induct)
  case (1 s)
  let ?old = "''-I'' @ p" and ?new = "''-isystem '' @ p" and ?t = "''-I'' @ q"
  show ?case
  proof (cases s)
    case Nil
    with "1.prems" show ?thesis by (simp add: str_replace_ne.simps)
  next
    case (Cons c cs)
    show ?thesis
    proof (cases "prefix ?old s")
      case True
      then obtain s' where s: "s = ?old @ s'" by (auto elim: prefixE)
      have "str_replace_ne ?old ?new s = ?new @ str_replace_ne ?old ?new s'"
        unfolding s by (rule replace_hit) simp
      with "1.prems" have "str_in ?t (p @ str_replace_ne ?old ?new s')"
        by simp
      then have "str_in ?t (str_replace_ne ?old ?new s')"
        using str_in_skip_safe [OF assms(1), of "CHR ''I''" q] by simp
      moreover have "length s' < length s" by (simp add: s)
      ultimately have "str_in ?t s'" using "1.IH" by blast
      then show ?thesis unfolding s by (rule str_in_append_right)
    next
      case False
      then have r: "str_replace_ne ?old ?new s = c # str_replace_ne ?old ?new cs"
        unfolding Cons by (rule replace_miss)
      from "1.prems" r
      consider (here) "prefix ?t (c # str_replace_ne ?old ?new cs)"
        | (later) "str_in ?t (str_replace_ne ?old ?new cs)"
        by auto
      then show ?thesis
      proof cases
        case here
        then have c: "c = CHR ''-''"
          and pre: "prefix (CHR ''I'' # q) (str_replace_ne ?old ?new cs)" by auto
        have "dash_safe (CHR ''I'' # q)" using assms(2) by (cases q) simp_all
        from prefix_replace_safe [OF this, of p "''system '' @ p" cs] pre
        have "prefix (CHR ''I'' # q) cs" by simp
        then show ?thesis using c Cons by simp
      next
        case later
        moreover have "length cs < length s" by (simp add: Cons)
        ultimately have "str_in ?t cs" using "1.IH" by blast
        then show ?thesis by (simp add: Cons)
      qed
    qed
  qed
qed

text \<open>
  After the replacement the replaced flag does not occur.
\<close>

lemma replace_removes_flag:
  assumes "dash_safe p"
  shows "\<not> str_in (''-I'' @ p) (str_replace_ne (''-I'' @ p) (''-isystem '' @ p) s)"
proof (induction s rule: length_induct)
  case (1 s)
  let ?old = "''-I'' @ p" and ?new = "''-isystem '' @ p"
  show ?case
  proof (cases s)
    case Nil
    show ?thesis by (simp add: Nil str_replace_ne.simps)
  next
    case (Cons c cs)
    show ?thesis
    proof (cases "prefix ?old s")
      case True
      then obtain s' where s: "s = ?old @ s'" by (auto elim: prefixE)
      have r: "str_replace_ne ?old ?new s = ?new @ str_replace_ne ?old ?new s'"
        unfolding s by (rule replace_hit) simp
      have "length s' < length s" by (simp add: s)
      then have "\<not> str_in ?old (str_replace_ne ?old ?new s')" using "1.IH" by blast
      then have "\<not> str_in ?old (p @ str_replace_ne ?old ?new s')"
        using str_in_skip_safe [OF assms, of "CHR ''I''" p] by simp
      then show ?thesis unfolding r by simp
    next
      case False
      then have r: "str_replace_ne ?old ?new s = c # str_replace_ne ?old ?new cs"
        unfolding Cons by (rule replace_miss)
      have "length cs < length s" by (simp add: Cons)
      then have later: "\<not> str_in ?old (str_replace_ne ?old ?new cs)" using "1.IH" by blast
      have "\<not> prefix ?old (c # str_replace_ne ?old ?new cs)"
      proof
        assume "prefix ?old (c # str_replace_ne ?old ?new cs)"
        then have c: "c = CHR ''-''"
          and pre: "prefix (CHR ''I'' # p) (str_replace_ne ?old ?new cs)" by auto
        have "dash_safe (CHR ''I'' # p)" using assms by (cases p) simp_all
        from prefix_replace_safe [OF this, of p "''system '' @ p" cs] pre
        have "prefix (CHR ''I'' # p) cs" by simp
        with c have "prefix ?old s" by (simp add: Cons)
        with False show False ..
      qed
      with later show ?thesis unfolding r by simp
    qed
  qed
qed

text \<open>
  A system-include flag of a dash-safe path survives the replacement.
\<close>

lemma replace_keeps_system:
  assumes "dash_safe p" and "dash_safe q"
  shows "str_in (''-isystem '' @ q) s
           \<Longrightarrow> str_in (''-isystem '' @ q) (str_replace_ne (''-I'' @ p) (''-isystem '' @ p) s)"
proof (induction s rule: length_induct)
  case (1 s)
  let ?old = "''-I'' @ p" and ?new = "''-isystem '' @ p" and ?w = "''-isystem '' @ q"
  show ?case
  proof (cases s)
    case Nil
    with "1.prems" show ?thesis by simp
  next
    case (Cons c cs)
    show ?thesis
    proof (cases "prefix ?old s")
      case True
      then obtain s' where s: "s = ?old @ s'" by (auto elim: prefixE)
      have r: "str_replace_ne ?old ?new s = ?new @ str_replace_ne ?old ?new s'"
        unfolding s by (rule replace_hit) simp
      from "1.prems" have "str_in ?w (p @ s')" unfolding s by simp
      then have "str_in ?w s'"
        using str_in_skip_safe [OF assms(1), of "CHR ''i''" "''system '' @ q"] by simp
      moreover have "length s' < length s" by (simp add: s)
      ultimately have "str_in ?w (str_replace_ne ?old ?new s')" using "1.IH" by blast
      then show ?thesis unfolding r by (rule str_in_append_right)
    next
      case False
      then have r: "str_replace_ne ?old ?new s = c # str_replace_ne ?old ?new cs"
        unfolding Cons by (rule replace_miss)
      from "1.prems" Cons consider (here) "prefix ?w (c # cs)" | (later) "str_in ?w cs"
        by auto
      then show ?thesis
      proof cases
        case here
        then have c: "c = CHR ''-''" and pre: "prefix (''isystem '' @ q) cs" by auto
        have "dash_safe (''isystem '' @ q)" using assms(2) by (cases q) simp_all
        from prefix_replace_safe [OF this, of p "''system '' @ p" cs] pre
        have "prefix (''isystem '' @ q) (str_replace_ne ?old ?new cs)" by simp
        then show ?thesis unfolding r using c by simp
      next
        case later
        moreover have "length cs < length s" by (simp add: Cons)
        ultimately have "str_in ?w (str_replace_ne ?old ?new cs)" using "1.IH" by blast
        then show ?thesis unfolding r by simp
      qed
    qed
  qed
qed

text \<open>
  A plain-include flag of a dash-safe path is kept or becomes the system-include flag.
\<close>

lemma replace_flag_or_system:
  assumes "dash_safe p" and "dash_safe q"
  shows "str_in (''-I'' @ q) s
           \<Longrightarrow> str_in (''-I'' @ q) (str_replace_ne (''-I'' @ p) (''-isystem '' @ p) s)
               \<or> str_in (''-isystem '' @ q) (str_replace_ne (''-I'' @ p) (''-isystem '' @ p) s)"
proof (induction s rule: length_induct)
  case (1 s)
  let ?old = "''-I'' @ p" and ?new = "''-isystem '' @ p"
  let ?t = "''-I'' @ q" and ?w = "''-isystem '' @ q"
  show ?case
  proof (cases s)
    case Nil
    with "1.prems" show ?thesis by simp
  next
    case (Cons c cs)
    show ?thesis
    proof (cases "prefix ?old s")
      case True
      then obtain s' where s: "s = ?old @ s'" by (auto elim: prefixE)
      have r: "str_replace_ne ?old ?new s = ?new @ str_replace_ne ?old ?new s'"
        unfolding s by (rule replace_hit) simp
      from "1.prems" consider (here) "prefix q (p @ s')" | (later) "str_in ?t (p @ s')"
        unfolding s by auto
      then show ?thesis
      proof cases
        case here
        have "prefix q (p @ str_replace_ne ?old ?new s')"
        proof (cases "prefix q p")
          case True
          then show ?thesis by simp
        next
          case False
          with here obtain us where us: "q = p @ us" "prefix us s'"
            by (auto simp add: prefix_append)
          have "dash_safe us" using assms(2) us(1) dash_safe_suffix by blast
          from prefix_replace_safe [OF this, of p "''system '' @ p" s'] us(2)
          have "prefix us (str_replace_ne ?old ?new s')" by simp
          then show ?thesis by (simp add: us(1))
        qed
        then have "prefix ?w (?new @ str_replace_ne ?old ?new s')" by simp
        then show ?thesis unfolding r by (blast intro: str_in_prefix)
      next
        case later
        then have "str_in ?t s'"
          using str_in_skip_safe [OF assms(1), of "CHR ''I''" q] by simp
        moreover have "length s' < length s" by (simp add: s)
        ultimately have "str_in ?t (str_replace_ne ?old ?new s')
            \<or> str_in ?w (str_replace_ne ?old ?new s')" using "1.IH" by blast
        then show ?thesis unfolding r by (blast intro: str_in_append_right)
      qed
    next
      case False
      then have r: "str_replace_ne ?old ?new s = c # str_replace_ne ?old ?new cs"
        unfolding Cons by (rule replace_miss)
      from "1.prems" Cons consider (here) "prefix ?t (c # cs)" | (later) "str_in ?t cs"
        by auto
      then show ?thesis
      proof cases
        case here
        then have c: "c = CHR ''-''" and pre: "prefix (CHR ''I'' # q) cs" by auto
        have "dash_safe (CHR ''I'' # q)" using assms(2) by (cases q) simp_all
        from prefix_replace_safe [OF this, of p "''system '' @ p" cs] pre
        have "prefix (CHR ''I'' # q) (str_replace_ne ?old ?new cs)" by simp
        then show ?thesis unfolding r using c by simp
      next
        case later
        moreover have "length cs < length s" by (simp add: Cons)
        ultimately have "str_in ?t (str_replace_ne ?old ?new cs)
            \<or> str_in ?w (str_replace_ne ?old ?new cs)" using "1.IH" by blast
        then show ?thesis unfolding r by auto
      qed
    qed
  qed
qed

lemma replace_first_hit:
  assumes "CHR ''-'' \<notin> set pre"
  shows "str_replace_ne (CHR ''-'' # old) new (pre @ CHR ''-'' # old @ tail)
           = pre @ new @ str_replace_ne (CHR ''-'' # old) new tail"
  using assms
proof (induction pre)
  case Nil
  show ?case using replace_hit [of "CHR ''-'' # old" new tail] by simp
next
  case (Cons a pre)
  then have "\<not> prefix (CHR ''-'' # old) (a # pre @ CHR ''-'' # old @ tail)" by auto
  from replace_miss [OF this] Cons show ?case by simp
qed

section \<open>The rewrite of one command\<close>

lemma rewrite_step_no_new_flag:
  assumes "dash_safe (os_path_join pr x)" and "dash_safe q"
    and "\<not> str_in (''-I'' @ q) c"
  shows "\<not> str_in (''-I'' @ q) (rewrite_step pr x c)"
  using assms replace_no_new_flag [of "os_path_join pr x" q c]
  by (auto simp add: rewrite_step_def Let_def str_replace_def)

lemma rewrite_step_removes_flag:
  assumes "dash_safe (os_path_join pr x)"
  shows "\<not> str_in (''-I'' @ os_path_join pr x) (rewrite_step pr x c)"
  using assms replace_removes_flag [of "os_path_join pr x" c]
  by (auto simp add: rewrite_step_def Let_def str_replace_def)

lemma rewrite_step_keeps_system:
  assumes "dash_safe (os_path_join pr x)" and "dash_safe q"
    and "str_in (''-isystem '' @ q) c"
  shows "str_in (''-isystem '' @ q) (rewrite_step pr x c)"
  using assms replace_keeps_system [of "os_path_join pr x" q c]
  by (auto simp add: rewrite_step_def Let_def str_replace_def)

lemma rewrite_step_flag_or_system:
  assumes "dash_safe (os_path_join pr x)" and "dash_safe q"
    and "str_in (''-I'' @ q) c \<or> str_in (''-isystem '' @ q) c"
  shows "str_in (''-I'' @ q) (rewrite_step pr x c) \<or> str_in (''-isystem '' @ q) (rewrite_step pr x c)"
  using assms replace_flag_or_system [of "os_path_join pr x" q c]
    replace_keeps_system [of "os_path_join pr x" q c]
  by (auto simp add: rewrite_step_def Let_def str_replace_def)

lemma rewrite_step_makes_system:
  assumes "dash_safe (os_path_join pr x)"
    and "str_in (''-I'' @ os_path_join pr x) c \<or> str_in (''-isystem '' @ os_path_join pr x) c"
  shows "str_in (''-isystem '' @ os_path_join pr x) (rewrite_step pr x c)"
  using rewrite_step_flag_or_system [OF assms(1) assms(1) assms(2)]
    rewrite_step_removes_flag [OF assms(1), of c]
  by blast

lemma rewrite_command_no_new_flag:
  assumes "\<forall>x \<in> set xs. dash_safe (os_path_join pr x)" and "dash_safe q"
    and "\<not> str_in (''-I'' @ q) c"
  shows "\<not> str_in (''-I'' @ q) (rewrite_command pr xs c)"
  using assms
proof (induction xs arbitrary: c)
  case Nil
  then show ?case by simp
next
  case (Cons x xs)
  have "\<not> str_in (''-I'' @ q) (rewrite_step pr x c)"
    using Cons.prems by (intro rewrite_step_no_new_flag) simp_all
  with Cons.IH [of "rewrite_step pr x c"] Cons.prems show ?case by simp
qed

lemma rewrite_command_removes_flags:
  assumes "\<forall>x \<in> set xs. dash_safe (os_path_join pr x)" and "y \<in> set xs"
  shows "\<not> str_in (''-I'' @ os_path_join pr y) (rewrite_command pr xs c)"
  using assms
proof (induction xs arbitrary: c)
  case Nil
  then show ?case by simp
next
  case (Cons x xs)
  have safe: "\<forall>x \<in> set xs. dash_safe (os_path_join pr x)" using Cons.prems by simp
  show ?case
  proof (cases "y = x")
    case True
    have "\<not> str_in (''-I'' @ os_path_join pr y) (rewrite_step pr x c)"
      unfolding True using Cons.prems by (intro rewrite_step_removes_flag) simp
    moreover have "dash_safe (os_path_join pr y)" using Cons.prems by blast
    ultimately show ?thesis
      using rewrite_command_no_new_flag [OF safe] by simp
  next
    case False
    with Cons.prems have "y \<in> set xs" by simp
    from Cons.IH [OF safe this] show ?thesis by simp
  qed
qed

lemma rewrite_command_unchanged:
  "\<forall>x \<in> set xs. \<not> str_in (''-I'' @ os_path_join pr x) c \<Longrightarrow> rewrite_command pr xs c = c"
  by (induction xs) (simp_all add: rewrite_step_def Let_def)

lemma rewrite_command_idempotent:
  assumes "\<forall>x \<in> set xs. dash_safe (os_path_join pr x)"
  shows "rewrite_command pr xs (rewrite_command pr xs c) = rewrite_command pr xs c"
  using rewrite_command_removes_flags [OF assms]
  by (intro rewrite_command_unchanged) blast

lemma rewrite_command_keeps_system:
  assumes "\<forall>x \<in> set xs. dash_safe (os_path_join pr x)" and "dash_safe q"
    and "str_in (''-isystem '' @ q) c"
  shows "str_in (''-isystem '' @ q) (rewrite_command pr xs c)"
  using assms
proof (induction xs arbitrary: c)
  case Nil
  then show ?case by simp
next
  case (Cons x xs)
  have "str_in (''-isystem '' @ q) (rewrite_step pr x c)"
    using Cons.prems by (intro rewrite_step_keeps_system) simp_all
  with Cons.IH [of "rewrite_step pr x c"] Cons.prems show ?case by simp
qed

lemma rewrite_command_makes_system:
  assumes "\<forall>x \<in> set xs. dash_safe (os_path_join pr x)" and "y \<in> set xs"
    and "str_in (''-I'' @ os_path_join pr y) c \<or> str_in (''-isystem '' @ os_path_join pr y) c"
  shows "str_in (''-isystem '' @ os_path_join pr y) (rewrite_command pr xs c)"
  using assms
proof (induction xs arbitrary: c)
  case Nil
  then show ?case by simp
next
  case (Cons x xs)
  have safe: "\<forall>x \<in> set xs. dash_safe (os_path_join pr x)" using Cons.prems by simp
  have safe_x: "dash_safe (os_path_join pr x)" using Cons.prems by simp
  have safe_y: "dash_safe (os_path_join pr y)" using Cons.prems by blast
  show ?case
  proof (cases "y = x")
    case True
    have "str_in (''-isystem '' @ os_path_join pr y) (rewrite_step pr x c)"
      unfolding True using Cons.prems(3) safe_x
      by (intro rewrite_step_makes_system) (simp_all add: True)
    then show ?thesis
      using rewrite_command_keeps_system [OF safe safe_y] by simp
  next
    case False
    with Cons.prems have y: "y \<in> set xs" by simp
    have "str_in (''-I'' @ os_path_join pr y) (rewrite_step pr x c)
          \<or> str_in (''-isystem '' @ os_path_join pr y) (rewrite_step pr x c)"
      using rewrite_step_flag_or_system [OF safe_x safe_y Cons.prems(3)] .
    from Cons.IH [OF safe y this] show ?thesis by simp
  qed
qed

section \<open>The header rewrite on entries, lists and states\<close>

text \<open>
  On an entry whose command is a string the inner loop computes \<^const>\<open>rewrite_command\<close>.
\<close>

lemma filter_headers_excludes_str:
  "map_of e ''command'' = Some (JStr c) \<Longrightarrow>
   filter_headers_excludes pr xs e
     = Inr (AList.update ''command'' (JStr (rewrite_command pr xs c)) e)"
proof (induction xs arbitrary: e c)
  case Nil
  then show ?case by (simp add: update_triv)
next
  case (Cons x xs)
  let ?c' = "rewrite_step pr x c"
  show ?case
  proof (cases "str_in (''-I'' @ os_path_join pr x) c")
    case True
    let ?e' = "AList.update ''command'' (JStr ?c') e"
    have "map_of ?e' ''command'' = Some (JStr ?c')" by (simp add: update_conv')
    from Cons.IH [OF this] True Cons.prems show ?thesis
      by (simp add: Let_def getitem_def rewrite_step_def)
  next
    case False
    with Cons.IH [OF Cons.prems] Cons.prems show ?thesis
      by (simp add: Let_def getitem_def rewrite_step_def)
  qed
qed

lemma filter_headers_excludes_frame:
  "filter_headers_excludes pr xs e = Inr e' \<Longrightarrow>
   map fst e' = map fst e \<and> (\<forall>k. k \<noteq> ''command'' \<longrightarrow> map_of e' k = map_of e k)"
proof (induction xs arbitrary: e)
  case Nil
  then show ?case by simp
next
  case (Cons x xs)
  let ?hi = "''-I'' @ os_path_join pr x" and ?hs = "''-isystem '' @ os_path_join pr x"
  from Cons.prems obtain v found where v: "map_of e ''command'' = Some v"
    and found: "py_in ?hi v = Inr found"
    by (auto simp add: Let_def getitem_def split: option.splits sum.splits)
  show ?case
  proof (cases found)
    case True
    with Cons.prems v found obtain v' where v': "py_replace v ?hi ?hs = Inr v'"
      and run: "filter_headers_excludes pr xs (AList.update ''command'' v' e) = Inr e'"
      by (auto simp add: Let_def getitem_def split: sum.splits)
    have "''command'' \<in> set (map fst e)" using v by (auto dest: map_of_SomeD intro: rev_image_eqI)
    then have "map fst (AList.update ''command'' v' e) = map fst e"
      by (simp add: update_keys)
    moreover have "\<forall>k. k \<noteq> ''command'' \<longrightarrow> map_of (AList.update ''command'' v' e) k = map_of e k"
      by (simp add: update_conv')
    ultimately show ?thesis using Cons.IH [OF run] by simp
  next
    case False
    with Cons.prems v found have "filter_headers_excludes pr xs e = Inr e'"
      by (simp add: Let_def getitem_def)
    from Cons.IH [OF this] show ?thesis .
  qed
qed

lemma filter_headers_excludes_noop:
  "\<forall>x \<in> set xs. \<exists>v. map_of e ''command'' = Some v \<and> py_in (''-I'' @ os_path_join pr x) v = Inr False
   \<Longrightarrow> filter_headers_excludes pr xs e = Inr e"
  by (induction xs) (auto simp add: Let_def getitem_def)

lemma filter_headers_commands_nth:
  "filter_headers_commands pr xs es = Inr es' \<Longrightarrow>
   length es' = length es
   \<and> (\<forall>i < length es. filter_headers_excludes pr xs (es ! i) = Inr (es' ! i))"
proof (induction es arbitrary: es')
  case Nil
  then show ?case by simp
next
  case (Cons e es)
  from Cons.prems obtain e1 es1 where e1: "filter_headers_excludes pr xs e = Inr e1"
    and es1: "filter_headers_commands pr xs es = Inr es1" and es': "es' = e1 # es1"
    by (auto split: sum.splits)
  from Cons.IH [OF es1] e1 show ?case
    by (auto simp add: es' nth_Cons split: nat.splits)
qed

lemma filter_headers_commands_noop:
  "\<forall>e \<in> set es. filter_headers_excludes pr xs e = Inr e \<Longrightarrow>
   filter_headers_commands pr xs es = Inr es"
  by (induction es) simp_all

lemma filter_headers_Inr:
  "filter_headers st = Inr st' \<Longrightarrow>
   filter_headers_commands (path_relative st) (map (str_lstrip os_path_sep) (excludes st))
     (commands_inc st) = Inr (commands_inc st')
   \<and> commands_exc st' = commands_exc st \<and> commands st' = commands st
   \<and> path_relative st' = path_relative st
   \<and> excludes st' = map (str_lstrip os_path_sep) (excludes st)"
  by (auto simp add: filter_headers_def REPLACE_WITH_SYSTEM_HEADERS_def Let_def split: sum.splits)

lemma filter_headers_frame:
  assumes "filter_headers st = Inr st'"
  shows "commands_exc st' = commands_exc st
    \<and> length (commands_inc st') = length (commands_inc st)
    \<and> (\<forall>i < length (commands_inc st).
          map fst (commands_inc st' ! i) = map fst (commands_inc st ! i)
          \<and> (\<forall>k. k \<noteq> ''command'' \<longrightarrow>
                map_of (commands_inc st' ! i) k = map_of (commands_inc st ! i) k))"
proof -
  let ?pr = "path_relative st" and ?xs = "map (str_lstrip os_path_sep) (excludes st)"
  from filter_headers_Inr [OF assms]
  have run: "filter_headers_commands ?pr ?xs (commands_inc st) = Inr (commands_inc st')"
    and exc: "commands_exc st' = commands_exc st" by simp_all
  from filter_headers_commands_nth [OF run]
  have len: "length (commands_inc st') = length (commands_inc st)"
    and nth: "\<forall>i < length (commands_inc st).
      filter_headers_excludes ?pr ?xs (commands_inc st ! i) = Inr (commands_inc st' ! i)"
    by simp_all
  show ?thesis using exc len nth filter_headers_excludes_frame by blast
qed

lemma filter_sources_Inr_filter:
  assumes "commands_inc st = []" and "commands_exc st = []" and "filter_sources st = Inr st1"
  shows "commands_inc st1 = filter (is_included (path_relative st) (excludes st)) (commands st)
    \<and> commands_exc st1 = filter (\<lambda>c. \<not> is_included (path_relative st) (excludes st) c) (commands st)"
proof -
  have wf: "\<forall>c \<in> set (commands st). well_formed_file c"
    using filter_sources_loop_error [of "commands st" st] assms(3)
    by (auto simp add: filter_sources_def)
  from filter_sources_loop_filter [OF wf, of st] assms show ?thesis
    by (auto simp add: filter_sources_def)
qed

section \<open>The claims about the header rewrite\<close>

text \<open>
  Claim C4, as amended. Provided that in every exclusion path each \<^verbatim>\<open>-\<close> is followed by a
  character other than \<^verbatim>\<open>I\<close> and \<^verbatim>\<open>i\<close>: for every included entry whose command is a
  string and every exclusion string whose plain-include flag occurs in that command, the
  command after \<^verbatim>\<open>filter_headers\<close> contains the system-include flag of that path and no
  longer contains its plain-include flag.
\<close>

theorem header_rewrite_replaces_flag:
  assumes "filter_headers st = Inr st'"
    and "\<forall>y \<in> set (excludes st). dash_safe (exclude_path_of (path_relative st) y)"
    and "i < length (commands_inc st)"
    and "x \<in> set (excludes st)"
    and "map_of (commands_inc st ! i) ''command'' = Some (JStr c)"
    and "str_in (''-I'' @ exclude_path_of (path_relative st) x) c"
  shows "\<exists>c'. map_of (commands_inc st' ! i) ''command'' = Some (JStr c')
           \<and> str_in (''-isystem '' @ exclude_path_of (path_relative st) x) c'
           \<and> \<not> str_in (''-I'' @ exclude_path_of (path_relative st) x) c'"
proof -
  let ?pr = "path_relative st" and ?xs = "map (str_lstrip os_path_sep) (excludes st)"
  let ?e = "commands_inc st ! i" and ?x = "str_lstrip os_path_sep x"
  let ?c' = "rewrite_command ?pr ?xs c"
  from filter_headers_Inr [OF assms(1)]
  have "filter_headers_commands ?pr ?xs (commands_inc st) = Inr (commands_inc st')" by simp
  from filter_headers_commands_nth [OF this] assms(3)
  have "filter_headers_excludes ?pr ?xs ?e = Inr (commands_inc st' ! i)" by simp
  with filter_headers_excludes_str [OF assms(5), of ?pr ?xs]
  have "commands_inc st' ! i = AList.update ''command'' (JStr ?c') ?e" by simp
  then have cmd: "map_of (commands_inc st' ! i) ''command'' = Some (JStr ?c')"
    by (simp add: update_conv')
  have safe: "\<forall>y \<in> set ?xs. dash_safe (os_path_join ?pr y)"
    using assms(2) by (simp add: exclude_path_of_def)
  have mem: "?x \<in> set ?xs" using assms(4) by simp
  have "str_in (''-isystem '' @ os_path_join ?pr ?x) ?c'"
    using assms(6) by (intro rewrite_command_makes_system [OF safe mem]) (simp add: exclude_path_of_def)
  moreover have "\<not> str_in (''-I'' @ os_path_join ?pr ?x) ?c'"
    by (rule rewrite_command_removes_flags [OF safe mem])
  ultimately show ?thesis using cmd by (simp add: exclude_path_of_def)
qed

theorem header_rewrite_replaces_flag_witness:
  "filter_headers scenario_partitioned
       = Inr (scenario_partitioned\<lparr>excludes := [''vendor''],
           commands_inc := [AList.update ''command''
              (JStr ''g++ -isystem /proj/vendor -c /proj/src/main.cpp'') main_cpp]\<rparr>)
   \<and> list_all (\<lambda>y. dash_safe (exclude_path_of (path_relative scenario_partitioned) y))
        (excludes scenario_partitioned)
   \<and> ''/vendor'' \<in> set (excludes scenario_partitioned)
   \<and> exclude_path_of (path_relative scenario_partitioned) ''/vendor'' = ''/proj/vendor''
   \<and> map_of (commands_inc scenario_partitioned ! 0) ''command''
        = Some (JStr ''g++ -I/proj/vendor -c /proj/src/main.cpp'')
   \<and> str_in ''-I/proj/vendor'' ''g++ -I/proj/vendor -c /proj/src/main.cpp''
   \<and> (\<exists>c'. map_of (AList.update ''command''
              (JStr ''g++ -isystem /proj/vendor -c /proj/src/main.cpp'') main_cpp) ''command''
               = Some (JStr c')
           \<and> str_in ''-isystem /proj/vendor'' c' \<and> \<not> str_in ''-I/proj/vendor'' c')"
proof -
  let ?st2 = "scenario_partitioned\<lparr>excludes := [''vendor''],
           commands_inc := [AList.update ''command''
              (JStr ''g++ -isystem /proj/vendor -c /proj/src/main.cpp'') main_cpp]\<rparr>"
  let ?c = "''g++ -I/proj/vendor -c /proj/src/main.cpp''"
  have h1: "filter_headers scenario_partitioned = Inr ?st2" by code_simp
  have h2: "\<forall>y \<in> set (excludes scenario_partitioned).
      dash_safe (exclude_path_of (path_relative scenario_partitioned) y)" by code_simp
  have h3: "0 < length (commands_inc scenario_partitioned)" by code_simp
  have h4: "''/vendor'' \<in> set (excludes scenario_partitioned)" by code_simp
  have h5: "map_of (commands_inc scenario_partitioned ! 0) ''command'' = Some (JStr ?c)"
    by code_simp
  have p: "exclude_path_of (path_relative scenario_partitioned) ''/vendor'' = ''/proj/vendor''"
    by code_simp
  have h6: "str_in (''-I'' @ exclude_path_of (path_relative scenario_partitioned) ''/vendor'') ?c"
    by code_simp
  have h6': "str_in ''-I/proj/vendor'' ?c" by code_simp
  have inc: "commands_inc ?st2 ! 0 = AList.update ''command''
              (JStr ''g++ -isystem /proj/vendor -c /proj/src/main.cpp'') main_cpp" by simp
  from header_rewrite_replaces_flag [OF h1 h2 h3 h4 h5 h6]
  have "\<exists>c'. map_of (commands_inc ?st2 ! 0) ''command'' = Some (JStr c')
           \<and> str_in ''-isystem /proj/vendor'' c' \<and> \<not> str_in ''-I/proj/vendor'' c'"
    unfolding p by simp
  with h1 h2 h4 h5 h6' p show ?thesis unfolding inc list_all_iff by blast
qed

text \<open>
  Claim C4 as stated fails without the proviso. With the exclusion paths \<^verbatim>\<open>/w/a\<close> and
  \<^verbatim>\<open>/w/x-I/w/a\<close> the command has the flag of the second path; the step for the first path
  rewrites the tail of that flag, the second step finds nothing, and the result has no
  system-include flag of the second path.
\<close>

theorem header_rewrite_replaces_flag_counterexample:
  "''/x-I/w/a'' \<in> set (excludes overlap_state)
   \<and> exclude_path_of (path_relative overlap_state) ''/x-I/w/a'' = ''/w/x-I/w/a''
   \<and> map_of (commands_inc overlap_state ! 0) ''command''
        = Some (JStr ''g++ -I/w/x-I/w/a -c /w/src/m.cpp'')
   \<and> str_in ''-I/w/x-I/w/a'' ''g++ -I/w/x-I/w/a -c /w/src/m.cpp''
   \<and> filter_headers overlap_state
        = Inr (overlap_state\<lparr>excludes := [''a'', ''x-I/w/a''],
            commands_inc := [AList.update ''command''
               (JStr ''g++ -I/w/x-isystem /w/a -c /w/src/m.cpp'') overlap_cpp]\<rparr>)
   \<and> \<not> str_in ''-isystem /w/x-I/w/a'' ''g++ -I/w/x-isystem /w/a -c /w/src/m.cpp''"
  by code_simp

text \<open>
  Claim C5. The header rewrite leaves the excluded list as the partitioner built it, a
  subsequence of the input; it keeps the number of included entries, and in every
  included entry the keys, their order and every value other than that of \<^verbatim>\<open>command\<close>.
\<close>

theorem header_rewrite_frame:
  assumes "commands_inc st = []" and "commands_exc st = []"
    and "filter_sources st = Inr st1" and "filter_headers st1 = Inr st2"
  shows "commands_exc st2 = commands_exc st1
    \<and> subseq (commands_exc st2) (commands st)
    \<and> subseq (commands_inc st1) (commands st)
    \<and> length (commands_inc st2) = length (commands_inc st1)
    \<and> (\<forall>i < length (commands_inc st1).
          map fst (commands_inc st2 ! i) = map fst (commands_inc st1 ! i)
          \<and> (\<forall>k. k \<noteq> ''command'' \<longrightarrow>
                map_of (commands_inc st2 ! i) k = map_of (commands_inc st1 ! i) k))"
proof -
  from filter_sources_Inr_filter [OF assms(1,2,3)]
  have sub: "subseq (commands_inc st1) (commands st)" "subseq (commands_exc st1) (commands st)"
    by simp_all
  from filter_headers_frame [OF assms(4)] sub show ?thesis by simp
qed

theorem header_rewrite_frame_witness:
  "commands_inc scenario_state = [] \<and> commands_exc scenario_state = []
   \<and> filter_sources scenario_state = Inr scenario_partitioned
   \<and> filter_headers scenario_partitioned
       = Inr (scenario_partitioned\<lparr>excludes := [''vendor''],
           commands_inc := [AList.update ''command''
              (JStr ''g++ -isystem /proj/vendor -c /proj/src/main.cpp'') main_cpp]\<rparr>)
   \<and> map_of (AList.update ''command''
              (JStr ''g++ -isystem /proj/vendor -c /proj/src/main.cpp'') main_cpp) ''file''
       = map_of (commands_inc scenario_partitioned ! 0) ''file''"
proof -
  let ?st2 = "scenario_partitioned\<lparr>excludes := [''vendor''],
           commands_inc := [AList.update ''command''
              (JStr ''g++ -isystem /proj/vendor -c /proj/src/main.cpp'') main_cpp]\<rparr>"
  have h1: "commands_inc scenario_state = []" by code_simp
  have h2: "commands_exc scenario_state = []" by code_simp
  have h3: "filter_sources scenario_state = Inr scenario_partitioned" by code_simp
  have h4: "filter_headers scenario_partitioned = Inr ?st2" by code_simp
  have len: "0 < length (commands_inc scenario_partitioned)" by code_simp
  have inc: "commands_inc ?st2 ! 0 = AList.update ''command''
              (JStr ''g++ -isystem /proj/vendor -c /proj/src/main.cpp'') main_cpp" by simp
  have ne: "''file'' \<noteq> ''command''" by simp
  note frame = header_rewrite_frame [OF h1 h2 h3 h4]
  have "map_of (commands_inc ?st2 ! 0) ''file'' = map_of (commands_inc scenario_partitioned ! 0) ''file''"
    using frame [THEN conjunct2, THEN conjunct2, THEN conjunct2, THEN conjunct2, rule_format,
        OF len, THEN conjunct2, rule_format, OF ne] .
  then have "map_of (AList.update ''command''
              (JStr ''g++ -isystem /proj/vendor -c /proj/src/main.cpp'') main_cpp) ''file''
       = map_of (commands_inc scenario_partitioned ! 0) ''file''"
    unfolding inc .
  with h1 h2 h3 h4 show ?thesis by (intro conjI)
qed

text \<open>
  Claim C6, as amended. Provided that in every exclusion path each \<^verbatim>\<open>-\<close> is followed by a
  character other than \<^verbatim>\<open>I\<close> and \<^verbatim>\<open>i\<close>: on an entry whose command is a string the
  rewrite succeeds, the command it leaves contains the plain-include flag of no exclusion
  path, and the rewrite applied to its own result changes nothing.
\<close>

theorem header_rewrite_idempotent_safe:
  assumes "\<forall>x \<in> set xs. dash_safe (os_path_join pr x)"
    and "map_of e ''command'' = Some (JStr c)"
  shows "\<exists>e' c'. filter_headers_excludes pr xs e = Inr e'
           \<and> map_of e' ''command'' = Some (JStr c')
           \<and> (\<forall>x \<in> set xs. \<not> str_in (''-I'' @ os_path_join pr x) c')
           \<and> filter_headers_excludes pr xs e' = Inr e'"
proof -
  let ?c' = "rewrite_command pr xs c"
  let ?e' = "AList.update ''command'' (JStr ?c') e"
  have first: "filter_headers_excludes pr xs e = Inr ?e'"
    by (rule filter_headers_excludes_str [OF assms(2)])
  have cmd: "map_of ?e' ''command'' = Some (JStr ?c')" by (simp add: update_conv')
  have gone: "\<forall>x \<in> set xs. \<not> str_in (''-I'' @ os_path_join pr x) ?c'"
    using rewrite_command_removes_flags [OF assms(1)] by blast
  from filter_headers_excludes_str [OF cmd, of pr xs]
  have second: "filter_headers_excludes pr xs ?e' = Inr ?e'"
    by (simp add: rewrite_command_idempotent [OF assms(1)])
  from first cmd gone second show ?thesis by blast
qed

theorem header_rewrite_idempotent_safe_witness:
  "list_all (\<lambda>x. dash_safe (os_path_join ''/proj'' x)) [''vendor'']
   \<and> map_of main_cpp ''command'' = Some (JStr ''g++ -I/proj/vendor -c /proj/src/main.cpp'')
   \<and> str_in (''-I'' @ os_path_join ''/proj'' ''vendor'') ''g++ -I/proj/vendor -c /proj/src/main.cpp''
   \<and> (\<exists>e' c'. filter_headers_excludes ''/proj'' [''vendor''] main_cpp = Inr e'
          \<and> map_of e' ''command'' = Some (JStr c')
          \<and> list_all (\<lambda>x. \<not> str_in (''-I'' @ os_path_join ''/proj'' x) c') [''vendor'']
          \<and> filter_headers_excludes ''/proj'' [''vendor''] e' = Inr e')"
proof -
  have h1: "\<forall>x \<in> set [''vendor'']. dash_safe (os_path_join ''/proj'' x)" by code_simp
  have h2: "map_of main_cpp ''command'' = Some (JStr ''g++ -I/proj/vendor -c /proj/src/main.cpp'')"
    by code_simp
  have h3: "str_in (''-I'' @ os_path_join ''/proj'' ''vendor'')
      ''g++ -I/proj/vendor -c /proj/src/main.cpp''" by code_simp
  from header_rewrite_idempotent_safe [OF h1 h2] h1 h2 h3 show ?thesis
    unfolding list_all_iff by blast
qed

text \<open>
  Claim C6 as stated fails without the proviso. With the exclusion path \<^verbatim>\<open>/w/a-i\<close> the
  first application turns \<^verbatim>\<open>-I/w/a-I/w/a-i\<close> into \<^verbatim>\<open>-I/w/a-isystem /w/a-i\<close>, in which the
  plain-include flag \<^verbatim>\<open>-I/w/a-i\<close> occurs again, and the second application rewrites it.
\<close>

theorem header_rewrite_idempotent_counterexample:
  "filter_headers_excludes ''/w'' [''a-i''] twice_cpp
     = Inr (AList.update ''command'' (JStr ''g++ -I/w/a-isystem /w/a-i -c /w/src/m.cpp'') twice_cpp)
   \<and> filter_headers_excludes ''/w'' [''a-i'']
        (AList.update ''command'' (JStr ''g++ -I/w/a-isystem /w/a-i -c /w/src/m.cpp'') twice_cpp)
     = Inr (AList.update ''command'' (JStr ''g++ -isystem /w/a-isystem /w/a-i -c /w/src/m.cpp'') twice_cpp)
   \<and> AList.update ''command'' (JStr ''g++ -isystem /w/a-isystem /w/a-i -c /w/src/m.cpp'') twice_cpp
     \<noteq> AList.update ''command'' (JStr ''g++ -I/w/a-isystem /w/a-i -c /w/src/m.cpp'') twice_cpp"
  by code_simp

text \<open>
  Claim C7, as amended. If no exclusion string occurs in the \<^verbatim>\<open>path_str\<close> of any entry,
  the partitioner returns an empty excluded list and the input as the included list,
  whatever the commands are; if moreover no command contains the plain-include flag of an
  exclusion path, the header rewrite returns with both lists unchanged.
\<close>

theorem no_match_is_noop:
  assumes "commands_inc st = []" and "commands_exc st = []"
    and "\<forall>c \<in> set (commands st). \<exists>p. path_str (path_relative st) c = Inr p
           \<and> (\<forall>x \<in> set (excludes st). \<not> str_in x p)"
  shows "\<exists>st1. filter_sources st = Inr st1
           \<and> commands_exc st1 = [] \<and> commands_inc st1 = commands st
           \<and> ((\<forall>c \<in> set (commands st). \<forall>x \<in> set (excludes st). \<exists>v.
                  map_of c ''command'' = Some v
                  \<and> py_in (''-I'' @ exclude_path_of (path_relative st) x) v = Inr False)
                \<longrightarrow> (\<exists>st2. filter_headers st1 = Inr st2
                       \<and> commands_exc st2 = [] \<and> commands_inc st2 = commands st))"
proof -
  let ?pr = "path_relative st" and ?xs = "map (str_lstrip os_path_sep) (excludes st)"
  have wf: "\<forall>c \<in> set (commands st). well_formed_file c"
    using assms(3) path_str_well_formed by blast
  have inc: "\<forall>c \<in> set (commands st). is_included ?pr (excludes st) c"
    using assms(3) by (auto simp add: is_included_def include_folder_iff)
  then have f1: "filter (is_included ?pr (excludes st)) (commands st) = commands st"
    and f2: "filter (\<lambda>c. \<not> is_included ?pr (excludes st) c) (commands st) = []"
    by simp_all
  let ?st1 = "st\<lparr>commands_inc := commands st, commands_exc := []\<rparr>"
  have run1: "filter_sources st = Inr ?st1"
    using filter_sources_loop_filter [OF wf, of st] assms(1,2) f1 f2
    by (simp add: filter_sources_def)
  have run2: "\<exists>st2. filter_headers ?st1 = Inr st2
                \<and> commands_exc st2 = [] \<and> commands_inc st2 = commands st"
    if noflag: "\<forall>c \<in> set (commands st). \<forall>x \<in> set (excludes st). \<exists>v.
                  map_of c ''command'' = Some v
                  \<and> py_in (''-I'' @ exclude_path_of (path_relative st) x) v = Inr False"
  proof -
    have "\<forall>e \<in> set (commands st). filter_headers_excludes ?pr ?xs e = Inr e"
    proof
      fix e assume "e \<in> set (commands st)"
      with noflag show "filter_headers_excludes ?pr ?xs e = Inr e"
        by (intro filter_headers_excludes_noop) (simp add: exclude_path_of_def)
    qed
    then have "filter_headers_commands ?pr ?xs (commands st) = Inr (commands st)"
      by (rule filter_headers_commands_noop)
    then have "filter_headers ?st1 = Inr (?st1\<lparr>excludes := ?xs\<rparr>)"
      by (simp add: filter_headers_def REPLACE_WITH_SYSTEM_HEADERS_def)
    then show ?thesis by simp
  qed
  have p1: "commands_exc ?st1 = []" and p2: "commands_inc ?st1 = commands st" by simp_all
  from run1 p1 p2 run2 show ?thesis by blast
qed

theorem no_match_is_noop_witness:
  "commands_inc no_match_state = [] \<and> commands_exc no_match_state = []
   \<and> list_all (\<lambda>c. \<exists>p. path_str (path_relative no_match_state) c = Inr p
          \<and> list_all (\<lambda>x. \<not> str_in x p) (excludes no_match_state)) (commands no_match_state)
   \<and> (\<exists>st1. filter_sources no_match_state = Inr st1
           \<and> commands_exc st1 = [] \<and> commands_inc st1 = commands no_match_state)
   \<and> commands_inc plain_state = [] \<and> commands_exc plain_state = []
   \<and> list_all (\<lambda>c. \<exists>p. path_str (path_relative plain_state) c = Inr p
          \<and> list_all (\<lambda>x. \<not> str_in x p) (excludes plain_state)) (commands plain_state)
   \<and> (\<exists>st1 st2. filter_sources plain_state = Inr st1
           \<and> commands_exc st1 = [] \<and> commands_inc st1 = commands plain_state
           \<and> filter_headers st1 = Inr st2
           \<and> commands_exc st2 = [] \<and> commands_inc st2 = commands plain_state)"
proof -
  have g1: "commands_inc no_match_state = []" by code_simp
  have g2: "commands_exc no_match_state = []" by code_simp
  have gcs: "commands no_match_state = [main_cpp]" by code_simp
  have gxs: "excludes no_match_state = [''/vendor'']" by code_simp
  have gp: "path_str (path_relative no_match_state) main_cpp = Inr ''/src''" by code_simp
  have n: "\<not> str_in ''/vendor'' ''/src''" by code_simp
  have g3: "\<forall>c \<in> set (commands no_match_state).
      \<exists>p. path_str (path_relative no_match_state) c = Inr p
           \<and> (\<forall>x \<in> set (excludes no_match_state). \<not> str_in x p)"
    using gp n by (simp add: gcs gxs)
  have part: "\<exists>st1. filter_sources no_match_state = Inr st1
           \<and> commands_exc st1 = [] \<and> commands_inc st1 = commands no_match_state"
    using no_match_is_noop [OF g1 g2 g3] by blast
  have h1: "commands_inc plain_state = []" by code_simp
  have h2: "commands_exc plain_state = []" by code_simp
  have cs: "commands plain_state = [util_cpp]" by code_simp
  have xs: "excludes plain_state = [''/vendor'']" by code_simp
  have p: "path_str (path_relative plain_state) util_cpp = Inr ''/src''" by code_simp
  have h3: "\<forall>c \<in> set (commands plain_state). \<exists>p. path_str (path_relative plain_state) c = Inr p
           \<and> (\<forall>x \<in> set (excludes plain_state). \<not> str_in x p)"
    using p n by (simp add: cs xs)
  have v: "map_of util_cpp ''command'' = Some (JStr ''g++ -I/proj/src -c /proj/src/util.cpp'')"
    by code_simp
  have f: "py_in (''-I'' @ exclude_path_of (path_relative plain_state) ''/vendor'')
             (JStr ''g++ -I/proj/src -c /proj/src/util.cpp'') = Inr False" by code_simp
  have h4: "\<forall>c \<in> set (commands plain_state). \<forall>x \<in> set (excludes plain_state). \<exists>v.
           map_of c ''command'' = Some v
           \<and> py_in (''-I'' @ exclude_path_of (path_relative plain_state) x) v = Inr False"
    using v f by (simp add: cs xs)
  have full: "\<exists>st1 st2. filter_sources plain_state = Inr st1
           \<and> commands_exc st1 = [] \<and> commands_inc st1 = commands plain_state
           \<and> filter_headers st1 = Inr st2
           \<and> commands_exc st2 = [] \<and> commands_inc st2 = commands plain_state"
    using no_match_is_noop [OF h1 h2 h3] h4 by blast
  from g1 g2 g3 part h1 h2 h3 full show ?thesis
    unfolding list_all_iff by (intro conjI)
qed

text \<open>
  Claim C7 as stated fails: the header rewrite does not depend on the partition. In the
  scenario without the source under \<^verbatim>\<open>vendor\<close> nothing is excluded, and the command of
  the only entry is still rewritten, since it names \<^verbatim>\<open>/proj/vendor\<close> as an include
  directory.
\<close>

theorem no_match_is_noop_counterexample:
  "commands no_match_state = [main_cpp]
   \<and> excludes no_match_state = [''/vendor'']
   \<and> path_str (path_relative no_match_state) main_cpp = Inr ''/src''
   \<and> \<not> str_in ''/vendor'' ''/src''
   \<and> filter_sources no_match_state = Inr (no_match_state\<lparr>commands_inc := [main_cpp]\<rparr>)
   \<and> filter_headers (no_match_state\<lparr>commands_inc := [main_cpp]\<rparr>)
        = Inr (no_match_state\<lparr>excludes := [''vendor''],
            commands_inc := [AList.update ''command''
               (JStr ''g++ -isystem /proj/vendor -c /proj/src/main.cpp'') main_cpp]\<rparr>)
   \<and> AList.update ''command'' (JStr ''g++ -isystem /proj/vendor -c /proj/src/main.cpp'') main_cpp
        \<noteq> main_cpp"
  by code_simp

text \<open>
  Claim C10. The rewrite is a substitution in the text of the command: where the
  plain-include flag of an exclusion path is the first thing after a text without
  \<^verbatim>\<open>-\<close>, it is replaced whatever follows it, also when the flag is only the beginning of
  the flag of a longer, different directory such as \<^verbatim>\<open>/proj/vendor2\<close>.
\<close>

theorem prefix_include_is_rewritten:
  assumes "CHR ''-'' \<notin> set pre"
  shows "filter_headers
       (st\<lparr>excludes := [x],
           commands_inc := [AList.update ''command''
             (JStr (pre @ ''-I'' @ exclude_path_of (path_relative st) x @ tail)) e]\<rparr>)
     = Inr (st\<lparr>excludes := [str_lstrip os_path_sep x],
               commands_inc := [AList.update ''command''
                 (JStr (pre @ ''-isystem '' @ exclude_path_of (path_relative st) x
                    @ str_replace (''-I'' @ exclude_path_of (path_relative st) x)
                        (''-isystem '' @ exclude_path_of (path_relative st) x) tail)) e]\<rparr>)"
proof -
  let ?p = "exclude_path_of (path_relative st) x"
  let ?cmd = "pre @ ''-I'' @ ?p @ tail"
  have found: "str_in (''-I'' @ ?p) ?cmd"
    by (intro str_in_append_right str_in_prefix) simp
  have "str_replace (''-I'' @ ?p) (''-isystem '' @ ?p) ?cmd
          = pre @ ''-isystem '' @ ?p @ str_replace (''-I'' @ ?p) (''-isystem '' @ ?p) tail"
    using replace_first_hit [OF assms, of "CHR ''I'' # ?p" "''-isystem '' @ ?p" tail]
    by (simp add: str_replace_def)
  with found show ?thesis
    by (simp add: filter_headers_def REPLACE_WITH_SYSTEM_HEADERS_def Let_def getitem_def
        update_conv' exclude_path_of_def)
qed

theorem prefix_include_is_rewritten_witness:
  "CHR ''-'' \<notin> set ''g++ ''
   \<and> filter_headers
       ((state0 ''/proj'' [])\<lparr>excludes := [''/vendor''],
           commands_inc := [AList.update ''command''
             (JStr ''g++ -I/proj/vendor2 -c /proj/src/main.cpp'') main_cpp]\<rparr>)
     = Inr ((state0 ''/proj'' [])\<lparr>excludes := [''vendor''],
               commands_inc := [AList.update ''command''
                 (JStr ''g++ -isystem /proj/vendor2 -c /proj/src/main.cpp'') main_cpp]\<rparr>)"
proof -
  have h: "CHR ''-'' \<notin> set ''g++ ''" by simp
  have p: "exclude_path_of (path_relative (state0 ''/proj'' [])) ''/vendor'' = ''/proj/vendor''"
    by code_simp
  have r: "str_replace ''-I/proj/vendor'' ''-isystem /proj/vendor'' ''2 -c /proj/src/main.cpp''
             = ''2 -c /proj/src/main.cpp''" by code_simp
  have l: "str_lstrip os_path_sep ''/vendor'' = ''vendor''" by code_simp
  from prefix_include_is_rewritten [OF h, of "state0 ''/proj'' []" "''/vendor''"
      "''2 -c /proj/src/main.cpp''" main_cpp]
  show ?thesis unfolding p l using r h by simp
qed

section \<open>Missing input files\<close>

lemma main_with_config_missing:
  "\<not> os_path_exists w pc \<Longrightarrow>
   main_with tok lc ld dump pc pb pr w =
     (if tok
      then (w\<lparr>stdout := stdout w @
              [''ERROR - Directory exclusion configuration is missing, skipping further processing'']\<rparr>,
            Some (SystemExit_code 0))
      else (w, Some (SystemExit_msg
              (''** FATAL - file to list excluded directories is missing:'' @ [CHR 0x0A] @ pc))))"
  by (simp add: main_with_def read_config_def)

lemma main_with_database_missing:
  assumes "os_path_exists w pc" and "Option.bind (files w pc) lc = Some raw"
    and "\<not> os_path_exists w (os_path_join pb ''compile_commands.json'')"
  shows "main_with tok lc ld dump pc pb pr w =
     (if tok
      then (w\<lparr>stdout := stdout w @
              [''ERROR - CMake-generated file '' @ [CHR 0x22] @ ''compile_commands.json''
                 @ [CHR 0x22] @ '' is missing, skipping further processing'']\<rparr>,
            Some (SystemExit_code 0))
      else (w, Some (SystemExit_msg
              (''** FATAL - file to list compile commands is missing:'' @ [CHR 0x0A]
                 @ os_path_join pb ''compile_commands.json''))))"
  using assms
  by (simp add: main_with_def read_config_def read_commands_def read_config_excludes_def Let_def)

lemma main_with_config_unreadable:
  assumes "os_path_exists w pc" and "Option.bind (files w pc) lc = None"
  shows "main_with tok lc ld dump pc pb pr w = (w, Some JSONDecodeError)"
  using assms by (simp add: main_with_def read_config_def)

lemma main_is_strict: "main = main_with False"
  by (simp add: main_def TERMINATE_OK_def)

text \<open>
  Claim C8. When the configuration file or the compilation database does not exist, the
  process ends with an exception and no file is written. The loader that misses its
  file (the second one is reached when the configuration loads) ends the process in the
  strict mode with a message that names the missing path and a non-zero exit status, and
  in the lenient mode with one printed warning and exit status 0.
\<close>

theorem missing_input_terminates:
  assumes "\<not> os_path_exists w pc \<or> \<not> os_path_exists w (os_path_join pb ''compile_commands.json'')"
  shows "files (fst (main_with tok lc ld dump pc pb pr w)) = files w
    \<and> snd (main_with tok lc ld dump pc pb pr w) \<noteq> None
    \<and> (\<not> os_path_exists w pc \<or> Option.bind (files w pc) lc \<noteq> None \<longrightarrow>
         (if tok
          then snd (main_with tok lc ld dump pc pb pr w) = Some (SystemExit_code 0)
               \<and> exit_status (snd (main_with tok lc ld dump pc pb pr w)) = 0
               \<and> (\<exists>warning. stdout (fst (main_with tok lc ld dump pc pb pr w)) = stdout w @ [warning])
          else (\<exists>msg. snd (main_with tok lc ld dump pc pb pr w) = Some (SystemExit_msg msg)
                  \<and> (suffix pc msg \<or> suffix (os_path_join pb ''compile_commands.json'') msg))
               \<and> exit_status (snd (main_with tok lc ld dump pc pb pr w)) \<noteq> 0
               \<and> stdout (fst (main_with tok lc ld dump pc pb pr w)) = stdout w))"
proof (cases "os_path_exists w pc")
  case False
  show ?thesis
    unfolding main_with_config_missing [OF False]
    by (simp add: suffix_def)
next
  case True
  with assms have db: "\<not> os_path_exists w (os_path_join pb ''compile_commands.json'')" by simp
  show ?thesis
  proof (cases "Option.bind (files w pc) lc")
    case None
    show ?thesis
      unfolding main_with_config_unreadable [OF True None] using True None by simp
  next
    case (Some raw)
    show ?thesis
      unfolding main_with_database_missing [OF True Some db]
      using True by (simp add: suffix_def)
  qed
qed

theorem missing_input_terminates_witness:
  "\<not> os_path_exists empty_world ''/proj/excludes_clang_tidy.json''
   \<and> files (fst (main_with False (\<lambda>_. None) (\<lambda>_. None) (\<lambda>_. ())
        ''/proj/excludes_clang_tidy.json'' ''/proj/_build'' ''/proj'' empty_world)) = files empty_world
   \<and> exit_status (snd (main_with False (\<lambda>_. None) (\<lambda>_. None) (\<lambda>_. ())
        ''/proj/excludes_clang_tidy.json'' ''/proj/_build'' ''/proj'' empty_world)) = 1
   \<and> snd (main_with True (\<lambda>_. None) (\<lambda>_. None) (\<lambda>_. ())
        ''/proj/excludes_clang_tidy.json'' ''/proj/_build'' ''/proj'' empty_world) = Some (SystemExit_code 0)"
proof -
  have h: "\<not> os_path_exists empty_world ''/proj/excludes_clang_tidy.json''"
    by (simp add: os_path_exists_def empty_world_def)
  then have h': "\<not> os_path_exists empty_world ''/proj/excludes_clang_tidy.json''
     \<or> \<not> os_path_exists empty_world (os_path_join ''/proj/_build'' ''compile_commands.json'')"
    by simp
  have e: "exit_status (snd (main_with False (\<lambda>_. None) (\<lambda>_. None) (\<lambda>_. ())
        ''/proj/excludes_clang_tidy.json'' ''/proj/_build'' ''/proj'' empty_world)) = 1"
    by (simp add: main_with_def read_config_def os_path_exists_def empty_world_def)
  from missing_input_terminates [OF h', of False "\<lambda>_. None" "\<lambda>_. None" "\<lambda>_. ()" "''/proj''"]
    missing_input_terminates [OF h', of True "\<lambda>_. None" "\<lambda>_. None" "\<lambda>_. ()" "''/proj''"]
    h e
  show ?thesis by simp
qed

end
